(* ===== verification/Prelude.thy ===== *)
theory Prelude
  imports Main "HOL-Library.Word" "HOL-Library.AList" "HOL-Library.Monad_Syntax"
begin

text \<open>
  Shared vocabulary of the development.

  \<^item> Machine integers: the release profile of the workspace has no overflow checks, so
    \<^verbatim>\<open>+\<close>, \<^verbatim>\<open>-\<close> and \<^verbatim>\<open>*\<close> on \<^verbatim>\<open>u64\<close>, \<^verbatim>\<open>u128\<close> and \<^verbatim>\<open>U256\<close> are the wrapping operations of
    the word types named here. The saturating operations are written out.
  \<^item> Arbitrary-precision arithmetic: malachite's \<^verbatim>\<open>Natural\<close> is \<^typ>\<open>nat\<close> and its \<^verbatim>\<open>Integer\<close> is
    \<^typ>\<open>int\<close>; \<^verbatim>\<open>div_round\<close> is division with an explicit rounding mode.
  \<^item> Panics: a call that can panic returns an \<^verbatim>\<open>option\<close>, with None for the panic. An error that
    the code returns as a \<^verbatim>\<open>Result\<close> is the left injection of a sum.
  \<^item> Association lists: a hash map whose iteration order can be observed is a list of pairs
    with distinct keys; the order of the list is the order of iteration.
\<close>

section \<open>Machine integers\<close>

type_synonym u8 = "8 word"
type_synonym u64 = "64 word"
type_synonym u128 = "128 word"
type_synonym u160 = "160 word"
type_synonym u256 = "256 word"
type_synonym usize = "64 word"
type_synonym address = "160 word"
type_synonym b256 = "256 word"

named_theorems panic_simps \<open>when a partial operation returns and with which value\<close>
named_theorems unat_simps \<open>the value of a machine operation as a natural number\<close>

definition saturating_from :: "nat \<Rightarrow> 'a::len word" where
  "saturating_from n = (if n < 2 ^ LENGTH('a) then of_nat n else - 1)"

definition saturating_sub :: "'a::len word \<Rightarrow> 'a word \<Rightarrow> 'a word" where
  "saturating_sub a b = (if a < b then 0 else a - b)"

definition saturating_add :: "'a::len word \<Rightarrow> 'a word \<Rightarrow> 'a word" where
  "saturating_add a b = (if a \<le> a + b then a + b else - 1)"

text \<open>\<^verbatim>\<open>Uint::from_limbs_slice\<close> and \<^verbatim>\<open>Uint::to\<close>: the value when it fits, a panic otherwise.\<close>

definition from_limbs_slice :: "nat \<Rightarrow> 'a::len word option" where
  "from_limbs_slice n = (if n < 2 ^ LENGTH('a) then Some (of_nat n) else None)"

lemma unat_lt2p: "unat (w :: 'a::len word) < 2 ^ LENGTH('a)"
  by (rule unsigned_less)

lemma unat_le_max: "unat (w :: 'a::len word) \<le> 2 ^ LENGTH('a) - 1"
  using unat_lt2p [of w] by linarith

lemma unat_of_nat_fits: "n < 2 ^ LENGTH('a) \<Longrightarrow> unat (of_nat n :: 'a::len word) = n"
  by (simp add: unat_of_nat)

lemma unat_max_word: "unat (- 1 :: 'a::len word) = 2 ^ LENGTH('a) - 1"
  by (simp add: unsigned_minus_1_eq_mask mask_eq_exp_minus_1)

lemma unat_saturating_from [unat_simps]:
  "unat (saturating_from n :: 'a::len word) = min n (2 ^ LENGTH('a) - 1)"
  by (auto simp: saturating_from_def unat_max_word unat_of_nat_fits min_def)

lemma unat_saturating_sub [simp, unat_simps]:
  "unat (saturating_sub a b) = unat a - unat b"
  by (auto simp: saturating_sub_def word_less_nat_alt unat_sub_if')

lemma unat_saturating_add [unat_simps]:
  "unat (saturating_add a b :: 'a::len word) = min (unat a + unat b) (2 ^ LENGTH('a) - 1)"
  by (auto simp: saturating_add_def unat_max_word unat_plus_if' word_le_nat_alt min_def)
    (use unat_lt2p [of b] in linarith)

lemma unat_saturating_le: "unat (saturating_from n :: 'a::len word) \<le> n"
  by (simp add: unat_saturating_from)

lemma unat_saturating_fits:
  "n < 2 ^ LENGTH('a) \<Longrightarrow> unat (saturating_from n :: 'a::len word) = n"
  by (simp add: unat_saturating_from)

lemma saturating_from_mono:
  "m \<le> n \<Longrightarrow> (saturating_from m :: 'a::len word) \<le> saturating_from n"
  by (auto simp: word_le_nat_alt unat_saturating_from min_def)

lemma from_limbs_slice_Some [panic_simps]:
  "from_limbs_slice n = Some (w :: 'a::len word) \<longleftrightarrow> unat w = n"
  using unat_lt2p [of w] by (auto simp: from_limbs_slice_def unat_of_nat_fits)

lemma from_limbs_slice_None [panic_simps]:
  "from_limbs_slice n = (None :: 'a::len word option) \<longleftrightarrow> 2 ^ LENGTH('a) \<le> n"
  by (auto simp: from_limbs_slice_def)

lemma from_limbs_slice_unat [simp]: "from_limbs_slice (unat w) = Some w"
  by (simp add: panic_simps)

lemma from_limbs_slice_returns:
  "n < 2 ^ LENGTH('a) \<Longrightarrow> \<exists>w. from_limbs_slice n = Some (w :: 'a::len word)"
  by (simp add: from_limbs_slice_def)

lemma unat_add_no_wrap:
  "unat a + unat b < 2 ^ LENGTH('a) \<Longrightarrow> unat (a + b :: 'a::len word) = unat a + unat b"
  by (simp add: unat_add_lem)

section \<open>Comparison\<close>

text \<open>\<^verbatim>\<open>std::cmp::Ordering\<close> with \<^verbatim>\<open>cmp\<close> of a total order and \<^verbatim>\<open>then_with\<close>.\<close>

datatype ordering = Less | Equal | Greater

definition cmp :: "'a::linorder \<Rightarrow> 'a \<Rightarrow> ordering" where
  "cmp a b = (if a < b then Less else if a = b then Equal else Greater)"

primrec then_with :: "ordering \<Rightarrow> ordering \<Rightarrow> ordering" where
  "then_with Less o2 = Less"
| "then_with Equal o2 = o2"
| "then_with Greater o2 = Greater"

lemma cmp_simps [simp]:
  "cmp a b = Less \<longleftrightarrow> a < b" "cmp a b = Equal \<longleftrightarrow> a = b" "cmp a b = Greater \<longleftrightarrow> b < a"
  by (auto simp: cmp_def)

section \<open>Rounding division\<close>

datatype rounding_mode = Floor | Ceiling | Nearest

definition div_ceil :: "nat \<Rightarrow> nat \<Rightarrow> nat" where
  "div_ceil n d = (n + d - 1) div d"

text \<open>To the nearest integer, ties to the even one.\<close>

definition div_nearest :: "int \<Rightarrow> int \<Rightarrow> int" where
  "div_nearest n d =
     (let q = n div d; r = \<bar>n - q * d\<bar> in
      if 2 * r < \<bar>d\<bar> then q
      else if \<bar>d\<bar> < 2 * r then q + 1
      else if even q then q else q + 1)"

definition div_round :: "nat \<Rightarrow> nat \<Rightarrow> rounding_mode \<Rightarrow> nat option" where
  "div_round n d rm =
     (if d = 0 then None
      else Some (case rm of Floor \<Rightarrow> n div d | Ceiling \<Rightarrow> div_ceil n d
                 | Nearest \<Rightarrow> nat (div_nearest (int n) (int d))))"

definition div_round_int :: "int \<Rightarrow> int \<Rightarrow> rounding_mode \<Rightarrow> int option" where
  "div_round_int n d rm =
     (if d = 0 then None
      else Some (case rm of Floor \<Rightarrow> n div d | Ceiling \<Rightarrow> - ((- n) div d)
                 | Nearest \<Rightarrow> div_nearest n d))"

definition up_or_down :: "bool \<Rightarrow> rounding_mode" where
  "up_or_down round_up = (if round_up then Ceiling else Floor)"

lemma div_round_None [panic_simps]: "div_round n d rm = None \<longleftrightarrow> d = 0"
  by (simp add: div_round_def)

lemma div_round_Floor [panic_simps]: "div_round n d Floor = Some k \<longleftrightarrow> d \<noteq> 0 \<and> k = n div d"
  by (auto simp: div_round_def)

lemma div_round_Ceiling [panic_simps]:
  "div_round n d Ceiling = Some k \<longleftrightarrow> d \<noteq> 0 \<and> k = div_ceil n d"
  by (auto simp: div_round_def)

text \<open>The two adjunctions from which the bounds on rounded prices follow.\<close>

lemma le_div_floor_iff: "0 < d \<Longrightarrow> k \<le> n div d \<longleftrightarrow> k * d \<le> (n :: nat)"
  by (rule less_eq_div_iff_mult_less_eq)

lemma div_ceil_le_iff:
  assumes "0 < d"
  shows "div_ceil n d \<le> k \<longleftrightarrow> n \<le> k * d"
proof -
  have "div_ceil n d \<le> k \<longleftrightarrow> n + d - 1 < (k + 1) * d"
    using assms div_less_iff_less_mult [of d "n + d - 1" "k + 1"]
    by (simp add: div_ceil_def less_Suc_eq_le)
  also have "\<dots> \<longleftrightarrow> n \<le> k * d"
    using assms by (auto simp: algebra_simps)
  finally show ?thesis .
qed

lemma less_div_ceil_iff: "0 < d \<Longrightarrow> k < div_ceil n d \<longleftrightarrow> k * d < n"
  by (meson div_ceil_le_iff linorder_not_le)

lemma div_floor_less_iff: "0 < d \<Longrightarrow> n div d < k \<longleftrightarrow> n < k * (d :: nat)"
  by (meson le_div_floor_iff linorder_not_le)

lemma div_ceil_ge: "0 < d \<Longrightarrow> n \<le> div_ceil n d * d"
  using div_ceil_le_iff [of d n "div_ceil n d"] by simp

lemma div_floor_le_ceil: "0 < d \<Longrightarrow> n div d \<le> div_ceil n d"
  by (simp add: div_ceil_def div_le_mono)

lemma div_ceil_le_floor_plus1: "0 < d \<Longrightarrow> div_ceil n d \<le> n div d + 1"
  by (simp add: div_ceil_le_iff) (metis add.commute dividend_less_div_times less_imp_le_nat)

lemma div_ceil_mono: "m \<le> n \<Longrightarrow> div_ceil m d \<le> div_ceil n d"
  by (simp add: div_ceil_def div_le_mono)

lemma div_ceil_exact [simp]: "0 < d \<Longrightarrow> div_ceil (k * d) d = k"
  by (metis div_ceil_le_iff le_antisym less_div_ceil_iff mult_le_cancel2 nle_le linorder_not_le)

lemma div_ceil_le_self: "0 < d \<Longrightarrow> div_ceil n d \<le> n"
  by (simp add: div_ceil_le_iff)

lemma div_ceil_0 [simp]: "div_ceil 0 d = 0"
  by (cases d) (auto simp: div_ceil_def)

section \<open>Integer square roots\<close>

text \<open>\<^verbatim>\<open>floor_sqrt\<close> and \<^verbatim>\<open>ceiling_root(2)\<close> of malachite, by recursion on base-4 digits.\<close>

function floor_sqrt :: "nat \<Rightarrow> nat" where
  "floor_sqrt n =
     (if n = 0 then 0
      else let r = 2 * floor_sqrt (n div 4) in if (r + 1) * (r + 1) \<le> n then r + 1 else r)"
  by pat_completeness auto
termination by (relation "measure id") auto

declare floor_sqrt.simps [simp del]

definition ceiling_sqrt :: "nat \<Rightarrow> nat" where
  "ceiling_sqrt n = (let r = floor_sqrt n in if r * r = n then r else r + 1)"

lemma floor_sqrt_spec: "floor_sqrt n * floor_sqrt n \<le> n \<and> n < (floor_sqrt n + 1) * (floor_sqrt n + 1)"
proof (induction n rule: floor_sqrt.induct)
  case (1 n)
  show ?case
  proof (cases "n = 0")
    case True
    then show ?thesis by (simp add: floor_sqrt.simps)
  next
    case False
    define s where "s = floor_sqrt (n div 4)"
    have ih: "s * s \<le> n div 4" "n div 4 < (s + 1) * (s + 1)"
      using 1 [OF False] by (simp_all add: s_def)
    have "2 * s * (2 * s) \<le> n" "n < (2 * s + 2) * (2 * s + 2)"
      using ih by (auto simp: algebra_simps)
    moreover have "floor_sqrt n = (if (2 * s + 1) * (2 * s + 1) \<le> n then 2 * s + 1 else 2 * s)"
      using False by (simp add: floor_sqrt.simps [of n] Let_def s_def)
    ultimately show ?thesis
      by auto
  qed
qed

lemma floor_sqrt_le_iff: "k \<le> floor_sqrt n \<longleftrightarrow> k * k \<le> n"
proof
  show "k \<le> floor_sqrt n \<Longrightarrow> k * k \<le> n"
    using floor_sqrt_spec [of n] by (meson le_trans mult_le_mono)
next
  assume "k * k \<le> n"
  then have "k * k < (floor_sqrt n + 1) * (floor_sqrt n + 1)"
    using floor_sqrt_spec [of n] by linarith
  then have "k < floor_sqrt n + 1"
    by (meson linorder_not_le mult_le_mono)
  then show "k \<le> floor_sqrt n"
    by simp
qed

lemma square_le_iff: "a * a \<le> b * b \<longleftrightarrow> a \<le> (b :: nat)"
  by (meson linorder_not_le mult_le_mono mult_strict_mono' zero_le)

lemma ceiling_sqrt_le_iff: "ceiling_sqrt n \<le> k \<longleftrightarrow> n \<le> k * k"
proof (cases "floor_sqrt n * floor_sqrt n = n")
  case True
  then show ?thesis
    using square_le_iff [of "floor_sqrt n" k] by (simp add: ceiling_sqrt_def)
next
  case False
  then have "k * k \<noteq> n"
    using floor_sqrt_le_iff [of k n] floor_sqrt_spec [of n] square_le_iff [of "floor_sqrt n" k]
    by (metis le_antisym order_refl)
  have "ceiling_sqrt n = floor_sqrt n + 1"
    using False by (simp add: ceiling_sqrt_def)
  then have "ceiling_sqrt n \<le> k \<longleftrightarrow> \<not> k \<le> floor_sqrt n"
    by linarith
  also have "\<dots> \<longleftrightarrow> n \<le> k * k"
    using \<open>k * k \<noteq> n\<close> by (auto simp: floor_sqrt_le_iff)
  finally show ?thesis .
qed

lemma ceiling_sqrt_square: "ceiling_sqrt (k * k) = k"
  by (metis ceiling_sqrt_le_iff dual_order.refl le_antisym square_le_iff)

section \<open>Rounded conversions as Galois connections\<close>

text \<open>
  A pair of conversions between machine values, one rounding up and one rounding down,
  indexed by the price they convert at. The conversion that rounds up may panic, or may
  saturate: a result is exact when it lies below the saturation point. For an admissible
  index the two are adjoint; every round-trip bound follows from that alone.
\<close>

locale rounding_pair =
  fixes admissible :: "'p \<Rightarrow> bool"
    and up :: "'p \<Rightarrow> 'a::linorder \<Rightarrow> 'b::linorder option"
    and down :: "'p \<Rightarrow> 'b \<Rightarrow> 'a option"
    and exact :: "'b \<Rightarrow> bool"
  assumes down_returns: "admissible p \<Longrightarrow> \<exists>y. down p b = Some y"
    and exact_below: "exact b \<Longrightarrow> b' \<le> b \<Longrightarrow> exact b'"
    and adjoint: "admissible p \<Longrightarrow> exact b \<Longrightarrow> down p b = Some y \<Longrightarrow>
                  (\<exists>x. up p a = Some x \<and> x \<le> b) \<longleftrightarrow> a \<le> y"
begin

lemma down_up_ge: "admissible p \<Longrightarrow> up p a = Some x \<Longrightarrow> exact x \<Longrightarrow> down p x = Some y \<Longrightarrow> a \<le> y"
  using adjoint by blast

lemma up_down_le: "admissible p \<Longrightarrow> exact b \<Longrightarrow> down p b = Some y \<Longrightarrow> \<exists>x. up p y = Some x \<and> x \<le> b"
  using adjoint by blast

lemma up_mono:
  assumes "admissible p" "a \<le> a'" "up p a' = Some x'" "exact x'"
  shows "\<exists>x. up p a = Some x \<and> x \<le> x'"
proof -
  obtain y where "down p x' = Some y"
    using down_returns assms(1) by blast
  with assms show ?thesis
    using adjoint [of p x' y] down_up_ge [of p a' x' y] by auto
qed

lemma down_mono:
  assumes "admissible p" "b \<le> b'" "exact b'" "down p b = Some y" "down p b' = Some y'"
  shows "y \<le> y'"
proof -
  obtain x where "up p y = Some x" "x \<le> b"
    using up_down_le [OF assms(1) exact_below [OF assms(3,2)] assms(4)] by blast
  with assms show ?thesis
    using adjoint [of p b' y' y] by auto
qed

lemma up_down_up:
  assumes "admissible p" "up p a = Some x" "exact x" "down p x = Some y"
  shows "up p y = Some x"
proof -
  obtain x' where x': "up p y = Some x'" "x' \<le> x"
    using up_down_le assms by blast
  then obtain x'' where "up p a = Some x''" "x'' \<le> x'"
    using up_mono [of p a y x'] down_up_ge exact_below assms by blast
  with x' assms(2) show ?thesis
    by simp
qed

lemma up_least:
  "admissible p \<Longrightarrow> up p a = Some x \<Longrightarrow> exact b \<Longrightarrow> down p b = Some y \<Longrightarrow> a \<le> y \<Longrightarrow> x \<le> b"
  using adjoint [of p b y a] by simp

end

end
