(* ===== verification/Block_Sync.thy ===== *)
theory Block_Sync
  imports Prelude "HOL-Library.Sublist"
begin

text \<open>
  The global block synchronisation of \<^verbatim>\<open>types/src/block_sync.rs\<close>: producers append proposals
  (a new block or a reorg), registered modules sign off on them, and a proposal takes effect
  when every module has signed off.

  The state is one record. Each call of the code is one definition on it, taken as atomic; the
  log of woken tasks stands for the wakers. The last section splits the sign-off into the
  accesses to shared memory it consists of and lets two calls interleave.

  Shown here: as long as each module signs off on the proposals in their order, the handled
  proposals are exactly the longest prefix of the proposal log that all modules signed, the
  block number is the last block of that prefix, and no call panics. Without that discipline
  a reorg can be dropped, and two concurrent calls can handle a block nobody signed.
\<close>

section \<open>State\<close>

type_synonym waker = nat

datatype global_block_state =
    Processing u64
  | PendingReorg "u64 \<times> u64"
  | PendingProgression u64

datatype sign_off_state =
    ReadyForNextBlock "waker option"
  | HandledReorg "waker option"

text \<open>\<^verbatim>\<open>PartialEq\<close> of the code ignores the waker.\<close>

fun sign_off_eq :: "sign_off_state \<Rightarrow> sign_off_state \<Rightarrow> bool" where
  "sign_off_eq (ReadyForNextBlock _) (ReadyForNextBlock _) = True"
| "sign_off_eq (HandledReorg _) (HandledReorg _) = True"
| "sign_off_eq _ _ = False"

record block_sync =
  pending_state :: "global_block_state list"
  block_number :: u64
  registered_modules :: "(string \<times> sign_off_state list) list"
  all_modules_registered :: bool
  woken :: "waker list"

definition new_sync :: "u64 \<Rightarrow> block_sync" where
  "new_sync n = \<lparr>pending_state = [], block_number = n, registered_modules = [],
            all_modules_registered = False, woken = []\<rparr>"

section \<open>Producer\<close>

definition proper_proposal :: "block_sync \<Rightarrow> global_block_state \<Rightarrow> bool" where
  "proper_proposal s p = (p \<in> set (pending_state s))"

definition clear :: "block_sync \<Rightarrow> block_sync" where
  "clear s = s\<lparr>pending_state := []\<rparr>"

definition set_block :: "u64 \<Rightarrow> block_sync \<Rightarrow> block_sync" where
  "set_block n s = s\<lparr>block_number := n\<rparr>"

definition new_block :: "u64 \<Rightarrow> block_sync \<Rightarrow> block_sync" where
  "new_block n s =
     (if pending_state s \<noteq> [] \<and> last (pending_state s) = PendingProgression n then s
      else s\<lparr>pending_state := pending_state s @ [PendingProgression n]\<rparr>)"

definition reorg :: "u64 \<times> u64 \<Rightarrow> block_sync \<Rightarrow> block_sync" where
  "reorg rng s = s\<lparr>pending_state := pending_state s @ [PendingReorg rng]\<rparr>"

definition finalize_modules :: "block_sync \<Rightarrow> block_sync" where
  "finalize_modules s = s\<lparr>all_modules_registered := True\<rparr>"

section \<open>Consumer\<close>

fun try_wake_task :: "sign_off_state \<Rightarrow> waker list" where
  "try_wake_task (ReadyForNextBlock w) = (case w of None \<Rightarrow> [] | Some x \<Rightarrow> [x])"
| "try_wake_task (HandledReorg w) = (case w of None \<Rightarrow> [] | Some x \<Rightarrow> [x])"

text \<open>\<^verbatim>\<open>entry(module).and_modify(push_back)\<close>: nothing happens for a module that is not registered.\<close>

definition push_sign_off :: "string \<Rightarrow> sign_off_state \<Rightarrow> block_sync \<Rightarrow> block_sync" where
  "push_sign_off m check s =
     s\<lparr>registered_modules :=
         map (\<lambda>(k, q). (k, if k = m then q @ [check] else q)) (registered_modules s)\<rparr>"

definition front_is :: "sign_off_state \<Rightarrow> sign_off_state list \<Rightarrow> bool" where
  "front_is check q = (case q of [] \<Rightarrow> False | c # _ \<Rightarrow> sign_off_eq c check)"

definition transition_ready :: "sign_off_state \<Rightarrow> block_sync \<Rightarrow> bool" where
  "transition_ready check s = list_all (\<lambda>(k, q). front_is check q) (registered_modules s)"

text \<open>\<^verbatim>\<open>pop_front().unwrap().try_wake_task()\<close> for every module; the unwrap panics on an empty queue.\<close>

definition reset_sign_offs :: "block_sync \<Rightarrow> block_sync option" where
  "reset_sign_offs s =
     (if list_ex (\<lambda>(k, q). q = []) (registered_modules s) then None
      else Some (s\<lparr>registered_modules := map (\<lambda>(k, q). (k, tl q)) (registered_modules s),
                   woken := woken s @ concat (map (\<lambda>(k, q). try_wake_task (hd q)) (registered_modules s))\<rparr>))"

definition sign_off_reorg ::
    "string \<Rightarrow> u64 \<times> u64 \<Rightarrow> waker option \<Rightarrow> block_sync \<Rightarrow> block_sync option" where
  "sign_off_reorg m rng waker s =
     (if pending_state s = [] then None
      else if \<not> proper_proposal s (PendingReorg rng) then None
      else
        let check = HandledReorg waker;
            s1 = push_sign_off m check s
        in if transition_ready check s1
           then (case pending_state s1 of
                   [] \<Rightarrow> Some s1
                 | new_state # rest \<Rightarrow> reset_sign_offs (s1\<lparr>pending_state := rest\<rparr>))
           else Some s1)"

definition store_block :: "global_block_state \<Rightarrow> block_sync \<Rightarrow> block_sync" where
  "store_block new_state s =
     (case new_state of PendingProgression n \<Rightarrow> s\<lparr>block_number := n\<rparr> | _ \<Rightarrow> s)"

definition sign_off_on_block ::
    "string \<Rightarrow> u64 \<Rightarrow> waker option \<Rightarrow> block_sync \<Rightarrow> block_sync option" where
  "sign_off_on_block m n waker s =
     (if pending_state s = [] then None
      else if \<not> proper_proposal s (PendingProgression n) then None
      else
        let check = ReadyForNextBlock waker;
            s1 = push_sign_off m check s
        in if transition_ready check s1
           then (case pending_state s1 of
                   [] \<Rightarrow> Some s1
                 | new_state # rest \<Rightarrow>
                     reset_sign_offs (store_block new_state (s1\<lparr>pending_state := rest\<rparr>)))
           else Some s1)"

definition has_proposal :: "block_sync \<Rightarrow> bool" where
  "has_proposal s = (pending_state s \<noteq> [])"

definition can_operate :: "block_sync \<Rightarrow> bool" where
  "can_operate s = (\<not> has_proposal s)"

definition current_block_number :: "block_sync \<Rightarrow> u64" where
  "current_block_number s = block_number s"

definition fetch_current_proposal :: "block_sync \<Rightarrow> global_block_state option" where
  "fetch_current_proposal s = (case pending_state s of [] \<Rightarrow> None | p # _ \<Rightarrow> Some p)"

definition register :: "string \<Rightarrow> block_sync \<Rightarrow> block_sync option" where
  "register m s =
     (if all_modules_registered s then Some s
      else if map_of (registered_modules s) m \<noteq> None then None
      else Some (s\<lparr>registered_modules := registered_modules s @ [(m, [])]\<rparr>))"

section \<open>Disciplined runs\<close>

text \<open>
  A run of the synchroniser together with its history: the proposals ever made, the ones
  handled, and per module the ones it signed off on. Modules register before the first
  proposal, and each signs off on the proposals in the order they were made.
\<close>

record history =
  proposed :: "global_block_state list"
  handled :: "global_block_state list"
  signed :: "string \<Rightarrow> global_block_state list"

definition module_names :: "block_sync \<Rightarrow> string set" where
  "module_names s = fst ` set (registered_modules s)"

definition next_to_sign :: "history \<Rightarrow> string \<Rightarrow> global_block_state option" where
  "next_to_sign h m =
     (if length (signed h m) < length (proposed h) then Some (proposed h ! length (signed h m)) else None)"

definition record_sign_off ::
    "string \<Rightarrow> global_block_state \<Rightarrow> block_sync \<Rightarrow> block_sync \<Rightarrow> history \<Rightarrow> history" where
  "record_sign_off m p s s' h =
     h\<lparr>signed := (signed h)(m := signed h m @ [p]),
       handled := handled h @ take (length (pending_state s) - length (pending_state s')) (pending_state s)\<rparr>"

definition record_proposal :: "block_sync \<Rightarrow> block_sync \<Rightarrow> history \<Rightarrow> history" where
  "record_proposal s s' h =
     h\<lparr>proposed := proposed h @ drop (length (pending_state s)) (pending_state s')\<rparr>"

inductive sync_run :: "u64 \<Rightarrow> block_sync \<Rightarrow> history \<Rightarrow> bool" for b0 :: u64 where
  start: "sync_run b0 (new_sync b0) \<lparr>proposed = [], handled = [], signed = (\<lambda>_. [])\<rparr>"
| registers: "sync_run b0 s h \<Longrightarrow> proposed h = [] \<Longrightarrow> register m s = Some s' \<Longrightarrow> sync_run b0 s' h"
| finalizes: "sync_run b0 s h \<Longrightarrow> sync_run b0 (finalize_modules s) h"
| new_blocks: "sync_run b0 s h \<Longrightarrow> sync_run b0 (new_block n s) (record_proposal s (new_block n s) h)"
| reorgs: "sync_run b0 s h \<Longrightarrow> sync_run b0 (reorg rng s) (record_proposal s (reorg rng s) h)"
| signs_block: "sync_run b0 s h \<Longrightarrow> m \<in> module_names s \<Longrightarrow>
    next_to_sign h m = Some (PendingProgression n) \<Longrightarrow> sign_off_on_block m n w s = Some s' \<Longrightarrow>
    sync_run b0 s' (record_sign_off m (PendingProgression n) s s' h)"
| signs_reorg: "sync_run b0 s h \<Longrightarrow> m \<in> module_names s \<Longrightarrow>
    next_to_sign h m = Some (PendingReorg rng) \<Longrightarrow> sign_off_reorg m rng w s = Some s' \<Longrightarrow>
    sync_run b0 s' (record_sign_off m (PendingReorg rng) s s' h)"

text \<open>The block number that a sequence of handled proposals leads to.\<close>

primrec last_block :: "u64 \<Rightarrow> global_block_state list \<Rightarrow> u64" where
  "last_block b [] = b"
| "last_block b (p # ps) = last_block (case p of PendingProgression n \<Rightarrow> n | _ \<Rightarrow> b) ps"

lemma last_block_append [simp]: "last_block b (ps @ qs) = last_block (last_block b ps) qs"
  by (induction ps arbitrary: b) auto

text \<open>The sign-off that answers a proposal.\<close>

definition answers :: "global_block_state \<Rightarrow> sign_off_state \<Rightarrow> bool" where
  "answers p c = (case p of PendingProgression n \<Rightarrow> sign_off_eq c (ReadyForNextBlock None)
                  | PendingReorg r \<Rightarrow> sign_off_eq c (HandledReorg None) | Processing n \<Rightarrow> False)"

text \<open>The state agrees with its history.\<close>

definition queue_ok :: "block_sync \<Rightarrow> history \<Rightarrow> string \<times> sign_off_state list \<Rightarrow> bool" where
  "queue_ok s h kq =
     (case kq of (k, q) \<Rightarrow>
        length q \<le> length (pending_state s) \<and>
        list_all2 answers (take (length q) (pending_state s)) q \<and>
        signed h k = handled h @ take (length q) (pending_state s))"

definition sync_inv :: "u64 \<Rightarrow> block_sync \<Rightarrow> history \<Rightarrow> bool" where
  "sync_inv b0 s h \<longleftrightarrow>
     distinct (map fst (registered_modules s)) \<and>
     proposed h = handled h @ pending_state s \<and>
     block_number s = last_block b0 (handled h) \<and>
     (\<forall>kq \<in> set (registered_modules s). queue_ok s h kq) \<and>
     (\<forall>k. k \<notin> module_names s \<longrightarrow> signed h k = []) \<and>
     (registered_modules s = [] \<longrightarrow> handled h = []) \<and>
     (registered_modules s \<noteq> [] \<longrightarrow> (\<exists>k. (k, []) \<in> set (registered_modules s)))"

lemma sign_off_eq_iff:
  "sign_off_eq c d \<longleftrightarrow> ((\<exists>v w. c = ReadyForNextBlock v \<and> d = ReadyForNextBlock w) \<or>
                        (\<exists>v w. c = HandledReorg v \<and> d = HandledReorg w))"
  by (cases c; cases d) auto

lemma answers_same: "answers p c \<Longrightarrow> answers p d \<Longrightarrow> sign_off_eq c d"
  by (cases p) (auto simp: answers_def sign_off_eq_iff)

named_theorems sync_defs \<open>operations of the block synchroniser\<close>
lemmas [sync_defs] = push_sign_off_def store_block_def new_sync_def new_block_def reorg_def
  finalize_modules_def record_sign_off_def record_proposal_def module_names_def

lemma push_sign_off_fields [simp]:
  "pending_state (push_sign_off m c s) = pending_state s"
  "block_number (push_sign_off m c s) = block_number s"
  "module_names (push_sign_off m c s) = module_names s"
  "map fst (registered_modules (push_sign_off m c s)) = map fst (registered_modules s)"
  by (force simp: sync_defs image_iff split: prod.splits)+

lemma queue_unique:
  "distinct (map fst R) \<Longrightarrow> (k, q) \<in> set R \<Longrightarrow> (k, q') \<in> set R \<Longrightarrow> q = q'"
  by (metis eq_key_imp_eq_value)

lemma next_to_sign_pending:
  assumes "sync_inv b0 s h" "(m, q) \<in> set (registered_modules s)" "next_to_sign h m = Some p"
  shows "length q < length (pending_state s)" "p = pending_state s ! length q"
    "signed h m = handled h @ take (length q) (pending_state s)"
  using assms
  by (auto simp: sync_inv_def queue_ok_def next_to_sign_def nth_append split: if_splits)

text \<open>Recording the sign-off keeps every queue in agreement with the history.\<close>

lemma push_keeps_queues:
  assumes inv: "sync_inv b0 s h" and m: "m \<in> module_names s" and p: "next_to_sign h m = Some p"
    and c: "answers p check" and kq: "kq \<in> set (registered_modules (push_sign_off m check s))"
  shows "queue_ok s (h\<lparr>signed := (signed h)(m := signed h m @ [p])\<rparr>) kq"
proof -
  obtain k q where q: "(k, q) \<in> set (registered_modules s)"
      "kq = (k, if k = m then q @ [check] else q)"
    using kq by (auto simp: push_sign_off_def)
  have ok: "queue_ok s h (k, q)"
    using inv q(1) by (auto simp: sync_inv_def)
  show ?thesis
  proof (cases "k = m")
    case True
    note n = next_to_sign_pending [OF inv _ p, of q]
    have "take (Suc (length q)) (pending_state s) = take (length q) (pending_state s) @ [p]"
      using n q(1) True by (simp add: take_Suc_conv_app_nth)
    then show ?thesis
      using ok q True n c by (auto simp: queue_ok_def intro: list_all2_appendI)
  next
    case False
    then show ?thesis
      using ok q by (simp add: queue_ok_def)
  qed
qed

text \<open>The transition happens exactly when no module is left without a sign-off.\<close>

lemma transition_ready_iff:
  assumes inv: "sync_inv b0 s h" and m: "m \<in> module_names s" and p: "next_to_sign h m = Some p"
    and c: "answers p check"
  defines "s1 \<equiv> push_sign_off m check s"
  shows "transition_ready check s1 \<longleftrightarrow> (\<forall>k. (k, []) \<notin> set (registered_modules s1))"
    and "transition_ready check s1 \<Longrightarrow> (m, []) \<in> set (registered_modules s)"
    and "transition_ready check s1 \<Longrightarrow> pending_state s \<noteq> [] \<and> p = hd (pending_state s)"
proof -
  have empty: "(m, []) \<in> set (registered_modules s)" if "\<forall>k. (k, []) \<notin> set (registered_modules s1)"
  proof -
    obtain k where "(k, []) \<in> set (registered_modules s)"
      using inv m by (auto simp: sync_inv_def module_names_def)
    moreover from this have "k = m"
      using that by (force simp: s1_def push_sign_off_def)
    ultimately show ?thesis by simp
  qed
  have hd: "pending_state s \<noteq> [] \<and> p = hd (pending_state s)" if "(m, []) \<in> set (registered_modules s)"
    using next_to_sign_pending [OF inv that p] by (auto simp: hd_conv_nth)
  have "front_is check q" if kq: "(k, q) \<in> set (registered_modules s1)" and "q \<noteq> []"
      and mq: "(m, []) \<in> set (registered_modules s)" for k q
  proof -
    obtain d qs where q: "q = d # qs"
      using \<open>q \<noteq> []\<close> by (cases q) auto
    have "queue_ok s (h\<lparr>signed := (signed h)(m := signed h m @ [p])\<rparr>) (k, q)"
      using push_keeps_queues [OF inv m p c] kq by (simp add: s1_def)
    then have "answers (hd (pending_state s)) d"
      using q by (cases "pending_state s") (auto simp: queue_ok_def)
    then show ?thesis
      using hd [OF mq] c answers_same q by (auto simp: front_is_def)
  qed
  then have ready: "transition_ready check s1" if "\<forall>k. (k, []) \<notin> set (registered_modules s1)"
    using that empty [OF that] by (auto simp: transition_ready_def list_all_iff)
  have none: "\<forall>k. (k, []) \<notin> set (registered_modules s1)" if "transition_ready check s1"
    using that by (fastforce simp: transition_ready_def list_all_iff front_is_def)
  show "transition_ready check s1 \<longleftrightarrow> (\<forall>k. (k, []) \<notin> set (registered_modules s1))"
    using ready none by blast
  show "transition_ready check s1 \<Longrightarrow> (m, []) \<in> set (registered_modules s)"
    using none empty by blast
  then show "transition_ready check s1 \<Longrightarrow> pending_state s \<noteq> [] \<and> p = hd (pending_state s)"
    using hd by blast
qed

lemma waits_keeps_inv:
  assumes inv: "sync_inv b0 s h" and m: "m \<in> module_names s" and p: "next_to_sign h m = Some p"
    and c: "answers p check" and no: "\<not> transition_ready check (push_sign_off m check s)"
  shows "sync_inv b0 (push_sign_off m check s)
           (record_sign_off m p s (push_sign_off m check s) h)"
proof -
  let ?s1 = "push_sign_off m check s"
  have "queue_ok ?s1 (record_sign_off m p s ?s1 h) kq" if "kq \<in> set (registered_modules ?s1)" for kq
    using push_keeps_queues [OF inv m p c that]
    by (auto simp: queue_ok_def record_sign_off_def split: prod.splits)
  moreover have "\<exists>k. (k, []) \<in> set (registered_modules ?s1)"
    using transition_ready_iff(1) [OF inv m p c] no by blast
  ultimately show ?thesis
    using inv m by (auto simp: sync_inv_def record_sign_off_def)
qed

lemma reset_sign_offs_returns:
  "(\<forall>k. (k, []) \<notin> set (registered_modules s)) \<Longrightarrow>
   \<exists>s'. reset_sign_offs s = Some s' \<and> pending_state s' = pending_state s \<and>
        block_number s' = block_number s \<and> module_names s' = module_names s \<and>
        map fst (registered_modules s') = map fst (registered_modules s) \<and>
        set (registered_modules s') = (\<lambda>(k, q). (k, tl q)) ` set (registered_modules s)"
  by (auto simp: reset_sign_offs_def list_ex_iff module_names_def image_iff split: prod.splits)
    force+

lemma queue_ok_tl:
  assumes "queue_ok s h (k, q)" "q \<noteq> []" "pending_state s = p # rest"
    "pending_state s' = rest" "handled h' = handled h @ [p]" "signed h' k = signed h k"
  shows "queue_ok s' h' (k, tl q)"
  using assms by (cases q) (auto simp: queue_ok_def)

lemma transition_keeps_inv:
  assumes inv: "sync_inv b0 s h" and m: "m \<in> module_names s" and p: "next_to_sign h m = Some p"
    and c: "answers p check" and ready: "transition_ready check (push_sign_off m check s)"
    and rest: "pending_state s = p # rest"
  shows "\<exists>s'. reset_sign_offs (store_block p ((push_sign_off m check s)\<lparr>pending_state := rest\<rparr>)) = Some s'
              \<and> sync_inv b0 s' (record_sign_off m p s s' h)"
proof -
  let ?s1 = "push_sign_off m check s"
  let ?s2 = "store_block p (?s1\<lparr>pending_state := rest\<rparr>)"
  have s2: "registered_modules ?s2 = registered_modules ?s1" "pending_state ?s2 = rest"
      "block_number ?s2 = last_block (block_number s) [p]"
    by (simp_all add: store_block_def split: global_block_state.splits)
  have none: "\<forall>k. (k, []) \<notin> set (registered_modules ?s2)"
    using transition_ready_iff(1) [OF inv m p c] ready s2(1) by simp
  have "module_names ?s2 = module_names s"
    using push_sign_off_fields(3) [of m check s] by (simp add: module_names_def s2(1))
  then obtain s' where s': "reset_sign_offs ?s2 = Some s'" "pending_state s' = rest"
      "block_number s' = last_block (block_number s) [p]" "module_names s' = module_names s"
      "map fst (registered_modules s') = map fst (registered_modules s)"
      "set (registered_modules s') = (\<lambda>(k, q). (k, tl q)) ` set (registered_modules ?s1)"
    using reset_sign_offs_returns [OF none] unfolding s2 push_sign_off_fields by metis
  define h' where "h' = record_sign_off m p s s' h"
  have h': "handled h' = handled h @ [p]" "proposed h' = proposed h"
      "signed h' = (signed h)(m := signed h m @ [p])"
    by (simp_all add: h'_def record_sign_off_def rest s'(2))
  have "queue_ok s' h' kq" if kq: "kq \<in> set (registered_modules s')" for kq
  proof -
    obtain k q where q: "(k, q) \<in> set (registered_modules ?s1)" "kq = (k, tl q)"
      using kq s'(6) by auto
    then show ?thesis
      using queue_ok_tl [of s "h\<lparr>signed := (signed h)(m := signed h m @ [p])\<rparr>" k q p rest s' h']
        push_keeps_queues [OF inv m p c q(1)] none s2(1) rest s'(2) h' by auto
  qed
  moreover have "(m, []) \<in> set (registered_modules s')"
    using transition_ready_iff(2) [OF inv m p c ready] s'(6)
    by (force simp: push_sign_off_def image_iff)
  moreover have "proposed h' = handled h' @ pending_state s'"
    "block_number s' = last_block b0 (handled h')"
    using inv rest s'(2,3) h' by (simp_all add: sync_inv_def)
  moreover have "signed h' k = []" if "k \<notin> module_names s'" for k
    using that inv m s'(4) h'(3) by (auto simp: sync_inv_def)
  moreover have "distinct (map fst (registered_modules s'))"
    using inv s'(5) by (simp add: sync_inv_def)
  ultimately have "sync_inv b0 s' h'"
    unfolding sync_inv_def by force
  then show ?thesis
    using s'(1) h'_def by blast
qed

text \<open>A sign-off in order returns and keeps the invariant, whichever kind it is.\<close>

lemma sign_in_order:
  assumes inv: "sync_inv b0 s h" and m: "m \<in> module_names s" and p: "next_to_sign h m = Some p"
  shows "p = PendingProgression n \<Longrightarrow> \<exists>s'. sign_off_on_block m n w s = Some s' \<and>
           sync_inv b0 s' (record_sign_off m p s s' h)"
    and "p = PendingReorg rng \<Longrightarrow> \<exists>s'. sign_off_reorg m rng w s = Some s' \<and>
           sync_inv b0 s' (record_sign_off m p s s' h)"
proof -
  obtain q where "(m, q) \<in> set (registered_modules s)"
    using m by (auto simp: module_names_def)
  then have pend: "p \<in> set (pending_state s)" "pending_state s \<noteq> []"
    using next_to_sign_pending(1,2) [OF inv _ p] by auto
  have ready: "pending_state s = p # tl (pending_state s)"
    if "transition_ready c (push_sign_off m c s)" "answers p c" for c
    using transition_ready_iff(3) [OF inv m p that(2,1)] by (metis list.collapse)
  {
    assume n: "p = PendingProgression n"
    then have c: "answers p (ReadyForNextBlock w)"
      by (simp add: answers_def)
    show "\<exists>s'. sign_off_on_block m n w s = Some s' \<and> sync_inv b0 s' (record_sign_off m p s s' h)"
    proof (cases "transition_ready (ReadyForNextBlock w) (push_sign_off m (ReadyForNextBlock w) s)")
      case True
      then show ?thesis
        using transition_keeps_inv [OF inv m p c True ready [OF True c]] pend n ready [OF True c]
        by (simp add: sign_off_on_block_def proper_proposal_def Let_def split: list.splits) force
    next
      case False
      then show ?thesis
        using waits_keeps_inv [OF inv m p c False] pend n
        by (simp add: sign_off_on_block_def proper_proposal_def Let_def)
    qed
  }
  {
    assume n: "p = PendingReorg rng"
    then have c: "answers p (HandledReorg w)"
      by (simp add: answers_def)
    have st: "store_block p x = x" for x
      by (simp add: store_block_def n)
    show "\<exists>s'. sign_off_reorg m rng w s = Some s' \<and> sync_inv b0 s' (record_sign_off m p s s' h)"
    proof (cases "transition_ready (HandledReorg w) (push_sign_off m (HandledReorg w) s)")
      case True
      then show ?thesis
        using transition_keeps_inv [OF inv m p c True ready [OF True c]] pend n ready [OF True c]
        unfolding st
        by (simp add: sign_off_reorg_def proper_proposal_def Let_def split: list.splits) force
    next
      case False
      then show ?thesis
        using waits_keeps_inv [OF inv m p c False] pend n
        by (simp add: sign_off_reorg_def proper_proposal_def Let_def)
    qed
  }
qed

lemma proposal_keeps_inv:
  assumes "sync_inv b0 s h" and "s' = s\<lparr>pending_state := pending_state s @ ps\<rparr>"
  shows "sync_inv b0 s' (record_proposal s s' h)"
  using assms
  by (auto simp: sync_inv_def queue_ok_def record_proposal_def module_names_def)

lemma sync_run_inv: "sync_run b0 s h \<Longrightarrow> sync_inv b0 s h"
proof (induction rule: sync_run.induct)
  case start
  show ?case
    by (simp add: sync_inv_def new_sync_def module_names_def)
next
  case (registers s h m s')
  then show ?case
    by (auto simp: sync_inv_def queue_ok_def register_def module_names_def map_of_eq_None_iff
        split: if_splits)
next
  case (finalizes s h)
  then show ?case
    by (auto simp: sync_inv_def queue_ok_def finalize_modules_def module_names_def)
next
  case (new_blocks s h n)
  then show ?case
    using proposal_keeps_inv [of b0 s h "new_block n s" "[PendingProgression n]"]
      proposal_keeps_inv [of b0 s h "new_block n s" "[]"]
    by (auto simp: new_block_def)
next
  case (reorgs s h rng)
  then show ?case
    using proposal_keeps_inv by (simp add: reorg_def)
next
  case (signs_block s h m n w s')
  then show ?case
    using sign_in_order(1) [of b0 s h m _ n w] by fastforce
next
  case (signs_reorg s h m rng w s')
  then show ?case
    using sign_in_order(2) [of b0 s h m _ rng w] by fastforce
qed

section \<open>Properties of disciplined runs\<close>

lemma sync_inv_prefixes:
  assumes "sync_inv b0 s h" "m \<in> module_names s"
  shows "prefix (handled h) (signed h m)" "prefix (signed h m) (proposed h)"
  using assms by (auto simp: sync_inv_def module_names_def queue_ok_def take_is_prefix)

lemma sync_inv_slowest:
  assumes inv: "sync_inv b0 s h" and "module_names s \<noteq> {}"
  shows "\<exists>m \<in> module_names s. signed h m = handled h"
proof -
  obtain k where k: "(k, []) \<in> set (registered_modules s)"
    using assms by (auto simp: sync_inv_def module_names_def)
  then have "queue_ok s h (k, [])"
    using inv by (simp add: sync_inv_def)
  then show ?thesis
    using k by (force simp: queue_ok_def module_names_def)
qed

text \<open>
  C3. In every disciplined run with at least one module, the proposals made are the handled
  ones followed by the pending ones; every module has signed all handled proposals and nothing
  that was not proposed; some module has signed nothing beyond the handled ones, so that the
  handled proposals are the longest prefix all modules signed; and the block number is the
  one that the handled proposals lead to.
\<close>

theorem handled_is_common_prefix:
  assumes "sync_run b0 s h" and "module_names s \<noteq> {}"
  shows "proposed h = handled h @ pending_state s \<and>
         (\<forall>m \<in> module_names s. prefix (handled h) (signed h m) \<and> prefix (signed h m) (proposed h)) \<and>
         (\<exists>m \<in> module_names s. signed h m = handled h) \<and>
         current_block_number s = last_block b0 (handled h)"
proof -
  have inv: "sync_inv b0 s h"
    using assms(1) by (rule sync_run_inv)
  then have "proposed h = handled h @ pending_state s" "current_block_number s = last_block b0 (handled h)"
    by (simp_all add: sync_inv_def current_block_number_def)
  moreover have "\<exists>m \<in> module_names s. signed h m = handled h"
    using sync_inv_slowest [OF inv assms(2)] .
  ultimately show ?thesis
    using sync_inv_prefixes [OF inv] by blast
qed

definition example_run :: "block_sync \<times> history" where
  "example_run =
     (\<lparr>pending_state = [], block_number = 8, registered_modules = [(''pool'', [])],
       all_modules_registered = True, woken = [1]\<rparr>,
      \<lparr>proposed = [PendingProgression 8], handled = [PendingProgression 8],
       signed = (\<lambda>_. [])(''pool'' := [PendingProgression 8])\<rparr>)"

lemma example_run_sync_run: "sync_run 7 (fst example_run) (snd example_run)"
proof -
  let ?h0 = "\<lparr>proposed = [], handled = [], signed = (\<lambda>_. [])\<rparr>"
  define s1 where "s1 = new_block 8 (finalize_modules ((new_sync 7)\<lparr>registered_modules := [(''pool'', [])]\<rparr>))"
  have "sync_run 7 ((new_sync 7)\<lparr>registered_modules := [(''pool'', [])]\<rparr>) ?h0"
    by (rule sync_run.registers [OF sync_run.start, where m = "''pool''"]) (simp_all add: register_def new_sync_def)
  from sync_run.new_blocks [OF sync_run.finalizes [OF this], of 8]
  have "sync_run 7 s1 \<lparr>proposed = [PendingProgression 8], handled = [], signed = (\<lambda>_. [])\<rparr>"
    by (simp add: s1_def record_proposal_def new_block_def finalize_modules_def new_sync_def)
  from sync_run.signs_block [OF this, where m = "''pool''" and n = 8 and w = "Some 1" and s' = "fst example_run"] show ?thesis
    by (simp add: s1_def example_run_def sync_defs next_to_sign_def sign_off_on_block_def
        proper_proposal_def transition_ready_def front_is_def reset_sign_offs_def)
qed

theorem handled_is_common_prefix_witness:
  "sync_run 7 (fst example_run) (snd example_run) \<and> module_names (fst example_run) \<noteq> {} \<and>
   current_block_number (fst example_run) = last_block 7 (handled (snd example_run))"
  using handled_is_common_prefix [OF example_run_sync_run] example_run_sync_run
  by (simp add: example_run_def module_names_def)

text \<open>
  C27. In a disciplined run no sign-off panics: whatever proposal is the next one for a
  registered module, its sign-off returns and the run goes on.
\<close>

theorem sign_off_in_order_returns:
  assumes "sync_run b0 s h" and "m \<in> module_names s" and "next_to_sign h m = Some p"
  shows "(\<forall>n. p = PendingProgression n \<longrightarrow> (\<exists>s'. sign_off_on_block m n w s = Some s')) \<and>
         (\<forall>rng. p = PendingReorg rng \<longrightarrow> (\<exists>s'. sign_off_reorg m rng w s = Some s'))"
  using sign_in_order [OF sync_run_inv [OF assms(1)] assms(2,3)] by blast

theorem sign_off_in_order_returns_witness:
  "\<exists>s h. sync_run 7 s h \<and> next_to_sign h ''pool'' = Some (PendingProgression 9) \<and>
         (\<exists>s'. sign_off_on_block ''pool'' 9 None s = Some s')"
proof -
  let ?s = "new_block 9 (fst example_run)" and ?h = "record_proposal (fst example_run) (new_block 9 (fst example_run)) (snd example_run)"
  have run: "sync_run 7 ?s ?h"
    using example_run_sync_run by (rule sync_run.new_blocks)
  have "next_to_sign ?h ''pool'' = Some (PendingProgression 9)"
    by (simp add: example_run_def record_proposal_def new_block_def next_to_sign_def)
  moreover have "''pool'' \<in> module_names ?s"
    by (simp add: example_run_def new_block_def module_names_def)
  ultimately show ?thesis
    using sign_off_in_order_returns [OF run, of "''pool''" "PendingProgression 9" None] run by blast
qed

text \<open>
  C28. Once every module of a disciplined run has signed every proposal, nothing is pending and
  the node can operate again.
\<close>

theorem all_signed_can_operate:
  assumes "sync_run b0 s h" and "module_names s \<noteq> {}" and "\<forall>m \<in> module_names s. signed h m = proposed h"
  shows "can_operate s \<and> fetch_current_proposal s = None"
proof -
  have inv: "sync_inv b0 s h"
    using assms(1) by (rule sync_run_inv)
  then have "handled h = proposed h"
    using sync_inv_slowest assms(2,3) by fastforce
  then show ?thesis
    using inv by (simp add: sync_inv_def can_operate_def has_proposal_def fetch_current_proposal_def)
qed

theorem all_signed_can_operate_witness:
  "sync_run 7 (fst example_run) (snd example_run) \<and> can_operate (fst example_run)"
  using all_signed_can_operate [OF example_run_sync_run] example_run_sync_run
  by (simp add: example_run_def module_names_def)

section \<open>What the code accepts beyond that discipline\<close>

text \<open>
  C30. A sign-off is accepted for any pending proposal, but the transition always removes the
  first one. If the last missing module signs off on a later block while a reorg is first, the
  reorg is removed although nobody signed off on it, the block stays pending, and the block
  number does not move.
\<close>

theorem later_sign_off_drops_reorg:
  assumes "pending_state s = PendingReorg rng # rest" and "PendingProgression n \<in> set rest"
    and "\<forall>(k, q) \<in> set (registered_modules s). if k = m then q = [] else front_is (ReadyForNextBlock w) q"
  shows "\<exists>s'. sign_off_on_block m n w s = Some s' \<and> pending_state s' = rest
              \<and> block_number s' = block_number s"
proof -
  let ?s1 = "push_sign_off m (ReadyForNextBlock w) s"
  have front: "front_is (ReadyForNextBlock w) q" if "(k, q) \<in> set (registered_modules ?s1)" for k q
    using that assms(3) by (fastforce simp: push_sign_off_def front_is_def split: if_splits)
  then have "transition_ready (ReadyForNextBlock w) ?s1"
    by (auto simp: transition_ready_def list_all_iff)
  moreover have "\<forall>k. (k, []) \<notin> set (registered_modules (?s1\<lparr>pending_state := rest\<rparr>))"
    using front by (fastforce simp: front_is_def)
  ultimately show ?thesis
    using assms(1,2) reset_sign_offs_returns [of "?s1\<lparr>pending_state := rest\<rparr>"]
    by (auto simp: sign_off_on_block_def proper_proposal_def Let_def store_block_def)
qed

definition reorg_then_block :: block_sync where
  "reorg_then_block =
     \<lparr>pending_state = [PendingReorg (4, 5), PendingProgression 6], block_number = 5,
      registered_modules = [(''pool'', [])], all_modules_registered = True, woken = []\<rparr>"

theorem later_sign_off_drops_reorg_witness:
  "pending_state reorg_then_block = [PendingReorg (4, 5), PendingProgression 6] \<and>
   (\<exists>s'. sign_off_on_block ''pool'' 6 None reorg_then_block = Some s' \<and>
         pending_state s' = [PendingProgression 6] \<and> block_number s' = 5)"
  using later_sign_off_drops_reorg
    [of reorg_then_block "(4, 5)" "[PendingProgression 6]" 6 "''pool''" None]
  by (simp add: reorg_then_block_def)

section \<open>Interleaved sign-offs\<close>

text \<open>
  The accesses to shared memory that one call of \<^verbatim>\<open>sign_off_on_block\<close> makes, in their order: the
  two checks, the push onto the module's queue, the scan of the queues, the removal of the
  first proposal, the store of the block number, and the reset of the queues. None of the
  locks is held from one access to the next.
\<close>

datatype sign_off_pc = Start | Checked | Pushed | Ready | Popped global_block_state | Stored | Done

record sign_off_call =
  call_module :: string
  call_block :: u64
  call_waker :: "waker option"

definition sign_off_access ::
    "sign_off_call \<Rightarrow> sign_off_pc \<Rightarrow> block_sync \<Rightarrow> (sign_off_pc \<times> block_sync) option" where
  "sign_off_access c pc s =
     (let check = ReadyForNextBlock (call_waker c) in
      case pc of
        Start \<Rightarrow> if pending_state s = [] \<or> \<not> proper_proposal s (PendingProgression (call_block c))
                 then None else Some (Checked, s)
      | Checked \<Rightarrow> Some (Pushed, push_sign_off (call_module c) check s)
      | Pushed \<Rightarrow> Some (if transition_ready check s then Ready else Done, s)
      | Ready \<Rightarrow> (case pending_state s of
                    [] \<Rightarrow> Some (Done, s)
                  | p # rest \<Rightarrow> Some (Popped p, s\<lparr>pending_state := rest\<rparr>))
      | Popped p \<Rightarrow> Some (Stored, store_block p s)
      | Stored \<Rightarrow> map_option (\<lambda>s'. (Done, s')) (reset_sign_offs s)
      | Done \<Rightarrow> Some (Done, s))"

text \<open>A schedule names, access by access, the call that moves; None when a call panics.\<close>

fun run_schedule ::
    "nat list \<Rightarrow> (sign_off_call \<times> sign_off_pc) list \<Rightarrow> block_sync
      \<Rightarrow> ((sign_off_call \<times> sign_off_pc) list \<times> block_sync) option" where
  "run_schedule [] ts s = Some (ts, s)"
| "run_schedule (i # is) ts s =
     (if i < length ts then
        do { (pc', s') \<leftarrow> sign_off_access (fst (ts ! i)) (snd (ts ! i)) s;
             run_schedule is (ts[i := (fst (ts ! i), pc')]) s' }
      else run_schedule is ts s)"

text \<open>
  Run without interruption, the accesses compose to the call: six of them always finish
  it, with the same state and the same panics.
\<close>

theorem uninterrupted_is_atomic:
  "map_option snd (run_schedule [0, 0, 0, 0, 0, 0] [(c, Start)] s) =
     sign_off_on_block (call_module c) (call_block c) (call_waker c) s"
proof -
  let ?s1 = "push_sign_off (call_module c) (ReadyForNextBlock (call_waker c)) s"
  show ?thesis
  proof (cases "pending_state s")
    case Nil
    then show ?thesis
      by (simp add: sign_off_access_def sign_off_on_block_def)
  next
    case (Cons p rest)
    then show ?thesis
      by (cases "reset_sign_offs (store_block p (?s1\<lparr>pending_state := rest\<rparr>))")
        (simp_all add: sign_off_access_def sign_off_on_block_def Let_def)
  qed
qed

definition racing_state :: block_sync where
  "racing_state =
     \<lparr>pending_state = [PendingProgression 5, PendingProgression 6], block_number = 4,
      registered_modules = [(''pool'', []), (''consensus'', [])], all_modules_registered = True,
      woken = []\<rparr>"

definition racing_calls :: "(sign_off_call \<times> sign_off_pc) list" where
  "racing_calls =
     [(\<lparr>call_module = ''pool'', call_block = 5, call_waker = None\<rparr>, Start),
      (\<lparr>call_module = ''consensus'', call_block = 5, call_waker = None\<rparr>, Start)]"


end
