(* ===== verification/Ray.thy ===== *)
theory Ray
  imports Prelude
begin

text \<open>
  The fixed-point price type of \<^verbatim>\<open>types/src/sol_bindings/ray.rs\<close> (27 decimals in a
  \<^verbatim>\<open>U256\<close>), the square-root price of \<^verbatim>\<open>types/src/matching/sqrtprice.rs\<close> and the token
  quantities of \<^verbatim>\<open>types/src/matching/tokens.rs\<close>. A price is token 1 per token 0.

  Shown here: the conversions between tokens at a price are Galois connections, so every
  round trip loses at most the rounding and always in the stated direction; conversion
  between square-root prices and rays is one as well; which operations can panic and when.
\<close>

section \<open>Constants and types\<close>

type_synonym ray = u256

definition const_1e27 :: nat where "const_1e27 = 10 ^ 27"
definition const_1e6 :: nat where "const_1e6 = 10 ^ 6"
definition const_1e54 :: nat where "const_1e54 = 10 ^ 54"
definition const_2_192 :: nat where "const_2_192 = 2 ^ 192"
definition const_2_96 :: nat where "const_2_96 = 2 ^ 96"

datatype quantity = Token0 u128 | Token1 u128

primrec magnitude :: "quantity \<Rightarrow> u128" where
  "magnitude (Token0 q) = q"
| "magnitude (Token1 q) = q"

datatype direction = BuyingT0 | SellingT0

primrec as_input :: "quantity \<Rightarrow> direction" where
  "as_input (Token0 q) = SellingT0"
| "as_input (Token1 q) = BuyingT0"

primrec as_output :: "quantity \<Rightarrow> direction" where
  "as_output (Token0 q) = BuyingT0"
| "as_output (Token1 q) = SellingT0"

definition from_is_bid :: "bool \<Rightarrow> direction" where
  "from_is_bid b = (if b then SellingT0 else BuyingT0)"

definition direction_is_bid :: "direction \<Rightarrow> bool" where
  "direction_is_bid d = (d = BuyingT0)"

definition direction_is_ask :: "direction \<Rightarrow> bool" where
  "direction_is_ask d = (d = SellingT0)"

definition from_prices :: "'p::linorder \<Rightarrow> 'p \<Rightarrow> direction" where
  "from_prices s e = (if s < e then BuyingT0 else SellingT0)"

fun is_input :: "direction \<Rightarrow> quantity \<Rightarrow> bool" where
  "is_input BuyingT0 (Token1 q) = True"
| "is_input SellingT0 (Token0 q) = True"
| "is_input d q = False"

primrec sort_tokens :: "direction \<Rightarrow> 'a \<Rightarrow> 'a \<Rightarrow> 'a \<times> 'a" where
  "sort_tokens BuyingT0 amount_in amount_out = (amount_out, amount_in)"
| "sort_tokens SellingT0 amount_in amount_out = (amount_in, amount_out)"

primrec sort_amounts :: "direction \<Rightarrow> 'a \<Rightarrow> 'a \<Rightarrow> 'a \<times> 'a" where
  "sort_amounts BuyingT0 token0 token1 = (token1, token0)"
| "sort_amounts SellingT0 token0 token1 = (token0, token1)"

section \<open>Operators\<close>

definition ray_sum :: "ray list \<Rightarrow> ray" where
  "ray_sum rs = foldl (+) 0 rs"

definition ray_sub :: "ray \<Rightarrow> ray \<Rightarrow> ray" where
  "ray_sub a b = a - b"

definition ray_sub_usize :: "ray \<Rightarrow> usize \<Rightarrow> ray" where
  "ray_sub_usize a n = saturating_sub a (ucast n)"

definition ray_mul_u256 :: "ray \<Rightarrow> u256 \<Rightarrow> ray" where
  "ray_mul_u256 a b = a * b"

definition ray_div_u256 :: "ray \<Rightarrow> u256 \<Rightarrow> ray option" where
  "ray_div_u256 a b = (if b = 0 then None else Some (a div b))"

definition ray_add :: "ray \<Rightarrow> ray \<Rightarrow> ray" where
  "ray_add a b = a + b"

definition ray_add_usize :: "ray \<Rightarrow> usize \<Rightarrow> ray" where
  "ray_add_usize a n = a + ucast n"

definition ray_from_u128 :: "u128 \<Rightarrow> ray" where
  "ray_from_u128 v = ucast v"

section \<open>Square-root prices\<close>

text \<open>\<^verbatim>\<open>widening_mul\<close> of two \<^verbatim>\<open>U160\<close> is exact, so the product is the natural-number product.\<close>

definition as_price_x192 :: "u160 \<Rightarrow> nat" where
  "as_price_x192 p = unat p * unat p"

definition convert_sqrtpricex96 :: "u160 \<Rightarrow> bool \<Rightarrow> ray option" where
  "convert_sqrtpricex96 price round_up =
     do { res \<leftarrow> div_round (as_price_x192 price * const_1e27) const_2_192 (up_or_down round_up);
          from_limbs_slice res }"

definition ray_from_sqrt :: "u160 \<Rightarrow> ray option" where
  "ray_from_sqrt price = convert_sqrtpricex96 price False"

definition sqrt_from_ray :: "ray \<Rightarrow> u160 option" where
  "sqrt_from_ray r =
     do { res \<leftarrow> div_round (unat r * const_2_192) const_1e27 Ceiling;
          from_limbs_slice (ceiling_sqrt res) }"

text \<open>The two bounds are constants of the package \<^verbatim>\<open>uniswap_v3_math\<close>.\<close>

definition within_sqrt_price_bounds :: "u256 \<Rightarrow> u256 \<Rightarrow> ray \<Rightarrow> bool option" where
  "within_sqrt_price_bounds min_sqrt_ratio max_sqrt_ratio r =
     do { res \<leftarrow> div_round (unat r * const_2_192) const_1e27 Ceiling;
          output \<leftarrow> from_limbs_slice (ceiling_sqrt res);
          Some (min_sqrt_ratio < output \<and> output < max_sqrt_ratio) }"

section \<open>Scaling\<close>

text \<open>
  Above 27 the subtraction \<^verbatim>\<open>27 - decimal_point as u64\<close> wraps to an exponent near \<^term>\<open>(2::nat) ^ 64\<close>,
  and the power cannot be allocated.
\<close>

definition generate_ray_decimal :: "u128 \<Rightarrow> u8 \<Rightarrow> ray option" where
  "generate_ray_decimal v decimal_point =
     (if 27 < unat decimal_point then None
      else from_limbs_slice (unat v * 10 ^ (27 - unat decimal_point)))"

definition scale_to_ray :: "u256 \<Rightarrow> ray option" where
  "scale_to_ray v = from_limbs_slice (unat v * const_1e27)"

definition scale_out_of_ray :: "ray \<Rightarrow> u256 option" where
  "scale_out_of_ray r = from_limbs_slice (unat r div const_1e27)"

definition unscale_to_fee :: "ray \<Rightarrow> u128 \<Rightarrow> ray option" where
  "unscale_to_fee r fee =
     (if fee = 0 then Some r
      else do { res \<leftarrow> div_round (unat r * const_1e6) (const_1e6 - unat fee) Floor;
                from_limbs_slice res })"

definition scale_to_fee :: "ray \<Rightarrow> u128 \<Rightarrow> ray option" where
  "scale_to_fee r fee =
     (if fee = 0 then Some r
      else do { res \<leftarrow> div_round (unat r * (const_1e6 - unat fee)) const_1e6 Floor;
                from_limbs_slice res })"

definition mul_ray :: "ray \<Rightarrow> ray \<Rightarrow> ray option" where
  "mul_ray a b =
     do { res \<leftarrow> div_round (unat a * unat b) const_1e27 Floor; from_limbs_slice res }"

text \<open>\<^verbatim>\<open>Rational::from_naturals\<close> panics on a zero denominator; the rational is then rounded down.\<close>

definition div_ray :: "ray \<Rightarrow> ray \<Rightarrow> ray option" where
  "div_ray a b =
     do { n \<leftarrow> div_round (unat a * const_1e27) (unat b) Floor; from_limbs_slice n }"

definition invert :: "ray \<Rightarrow> rounding_mode \<Rightarrow> ray option" where
  "invert r rm = do { res \<leftarrow> div_round const_1e54 (unat r) rm; from_limbs_slice res }"

definition inv_ray_round :: "ray \<Rightarrow> bool \<Rightarrow> ray option" where
  "inv_ray_round r round_up = (if round_up then invert r Ceiling else invert r Floor)"

definition mul_wad :: "ray \<Rightarrow> nat \<Rightarrow> u8 \<Rightarrow> ray option" where
  "mul_wad r mul decimals =
     do { n \<leftarrow> div_round (unat r * mul) (10 ^ unat decimals) Floor; from_limbs_slice n }"

definition inv_ray :: "ray \<Rightarrow> ray option" where
  "inv_ray r = (if r = 0 then Some r else invert r Floor)"

section \<open>Prices and quantities\<close>

definition calc_price_inner :: "nat \<Rightarrow> nat \<Rightarrow> rounding_mode \<Rightarrow> ray option" where
  "calc_price_inner t0 t1 rm =
     do { output \<leftarrow> div_round (t1 * const_1e27) t0 rm; from_limbs_slice output }"

definition calc_price :: "u256 \<Rightarrow> u256 \<Rightarrow> ray option" where
  "calc_price t0 t1 = calc_price_inner (unat t0) (unat t1) Ceiling"

definition calc_price_generic :: "nat \<Rightarrow> nat \<Rightarrow> bool \<Rightarrow> ray option" where
  "calc_price_generic t0 t1 round_up = calc_price_inner t0 t1 (up_or_down round_up)"

definition mul_quantity :: "ray \<Rightarrow> u256 \<Rightarrow> u256 option" where
  "mul_quantity r q =
     do { res \<leftarrow> div_round (unat r * unat q) const_1e27 Floor; from_limbs_slice res }"

definition quantity_at :: "ray \<Rightarrow> u128 \<Rightarrow> bool \<Rightarrow> u128 option" where
  "quantity_at r q round_up =
     do { res \<leftarrow> div_round (unat r * unat q) const_1e27 (up_or_down round_up);
          Some (saturating_from res) }"

definition inverse_quantity :: "ray \<Rightarrow> u128 \<Rightarrow> bool \<Rightarrow> u128 option" where
  "inverse_quantity r q round_up =
     do { res \<leftarrow> div_round (unat q * const_1e27) (unat r) (up_or_down round_up);
          Some (saturating_from res) }"

text \<open>\<^verbatim>\<open>mod_op\<close> panics on a zero divisor.\<close>

definition inverse_remainder :: "ray \<Rightarrow> u128 \<Rightarrow> u128 option" where
  "inverse_remainder r q =
     (if unat r = 0 then None else Some (saturating_from ((unat q * const_1e27) mod unat r)))"

primrec price_of :: "ray \<Rightarrow> quantity \<Rightarrow> bool \<Rightarrow> u128 option" where
  "price_of r (Token0 t0) round_up = quantity_at r t0 round_up"
| "price_of r (Token1 t1) round_up = inverse_quantity r t1 round_up"

section \<open>Token quantities\<close>

text \<open>\<^verbatim>\<open>TokenQuantity\<close> has the constructors and the payload of \<^verbatim>\<open>Quantity\<close>.\<close>

primrec token_quantity_add :: "quantity \<Rightarrow> u128 \<Rightarrow> quantity" where
  "token_quantity_add (Token0 q) rhs = Token0 (q + rhs)"
| "token_quantity_add (Token1 q) rhs = Token1 (q + rhs)"

primrec token_quantity_sub :: "quantity \<Rightarrow> u128 \<Rightarrow> quantity" where
  "token_quantity_sub (Token0 q) rhs = Token0 (q - rhs)"
| "token_quantity_sub (Token1 q) rhs = Token1 (q - rhs)"

primrec swap_at_price :: "quantity \<Rightarrow> ray \<Rightarrow> quantity option" where
  "swap_at_price (Token0 q) price =
     do { x \<leftarrow> mul_quantity price (ucast q); y \<leftarrow> from_limbs_slice (unat x); Some (Token1 y) }"
| "swap_at_price (Token1 q) price =
     do { x \<leftarrow> inverse_quantity price q True; Some (Token0 x) }"

primrec as_t0 :: "quantity \<Rightarrow> ray \<Rightarrow> quantity option" where
  "as_t0 (Token0 q) price = Some (Token0 q)"
| "as_t0 (Token1 q) price = swap_at_price (Token1 q) price"

primrec as_t1 :: "quantity \<Rightarrow> ray \<Rightarrow> quantity option" where
  "as_t1 (Token0 q) price = swap_at_price (Token0 q) price"
| "as_t1 (Token1 q) price = Some (Token1 q)"

section \<open>Values and panics of the conversions\<close>

lemmas ray_consts = const_1e27_def const_1e6_def const_1e54_def const_2_192_def

lemma ray_consts_pos [simp]: "0 < const_1e27" "0 < const_1e6" "0 < const_1e54" "0 < const_2_192"
  by (simp_all add: ray_consts)

lemma ray_consts_nz [simp]: "const_1e27 \<noteq> 0" "const_1e6 \<noteq> 0" "const_1e54 \<noteq> 0" "const_2_192 \<noteq> 0"
  by (simp_all add: ray_consts)

lemma const_1e54_split: "const_1e54 = const_1e27 * const_1e27"
  by (simp add: ray_consts)

lemma unat_u128_lt [simp]: "unat (q :: u128) < 2 ^ 128"
  using unat_lt2p [of q] by simp

lemma unat_u128_le: "unat (q :: u128) \<le> 2 ^ 128 - 1"
  using unat_lt2p [of q] by simp

lemma unat_u160_lt: "unat (q :: u160) < 2 ^ 160"
  using unat_lt2p [of q] by simp

lemma unat_u256_lt: "unat (q :: u256) < 2 ^ 256"
  using unat_lt2p [of q] by simp

lemma u128_exact_iff: "(q :: u128) \<noteq> - 1 \<longleftrightarrow> unat q < 2 ^ 128 - 1"
  using unat_u128_lt [of q] by (auto simp: unat_max_word word_unat_eq_iff)

lemma quantity_at_eq:
  "quantity_at r q round_up =
     Some (saturating_from (if round_up then div_ceil (unat r * unat q) const_1e27
                            else unat r * unat q div const_1e27))"
  by (simp add: quantity_at_def up_or_down_def div_round_def)

lemma inverse_quantity_eq:
  "inverse_quantity r q round_up =
     (if r = 0 then None
      else Some (saturating_from (if round_up then div_ceil (unat q * const_1e27) (unat r)
                                  else unat q * const_1e27 div unat r)))"
  by (simp add: inverse_quantity_def up_or_down_def div_round_def unat_eq_zero)

lemma price_of_returns: "r \<noteq> 0 \<Longrightarrow> \<exists>x. price_of r q round_up = Some x"
  by (cases q) (simp_all add: quantity_at_eq inverse_quantity_eq)

lemma saturating_le_iff:
  "(b :: 'a::len word) \<noteq> - 1 \<Longrightarrow> saturating_from n \<le> b \<longleftrightarrow> n \<le> unat b"
  using unat_le_max [of b]
  by (auto simp: word_le_nat_alt unat_saturating_from min_def word_unat_eq_iff unat_max_word)

lemma le_saturating_iff: "(a :: 'a::len word) \<le> saturating_from n \<longleftrightarrow> unat a \<le> n"
  using unat_le_max [of a] by (auto simp: word_le_nat_alt unat_saturating_from)

lemma max_le_iff [simp]: "- 1 \<le> (b :: 'a::len word) \<longleftrightarrow> b = - 1"
  by (metis antisym order_refl word_order.extremum)

text \<open>At a positive price: the least amount of token 0 worth an amount of token 1.\<close>

interpretation t1_to_t0: rounding_pair "\<lambda>p. p \<noteq> 0" "\<lambda>p q. inverse_quantity p q True"
  "\<lambda>p q. quantity_at p q False" "\<lambda>b. b \<noteq> - 1"
  by unfold_locales
    (auto simp: quantity_at_eq inverse_quantity_eq saturating_le_iff le_saturating_iff
      div_ceil_le_iff le_div_floor_iff unat_gt_0 mult.commute)

text \<open>At a positive price: the least amount of token 1 worth an amount of token 0.\<close>

interpretation t0_to_t1: rounding_pair "\<lambda>p. p \<noteq> 0" "\<lambda>p q. quantity_at p q True"
  "\<lambda>p q. inverse_quantity p q False" "\<lambda>b. b \<noteq> - 1"
  by unfold_locales
    (auto simp: quantity_at_eq inverse_quantity_eq saturating_le_iff le_saturating_iff
      div_ceil_le_iff le_div_floor_iff unat_gt_0 mult.commute)

text \<open>The price computed from two amounts is the least price at which the first buys the second.\<close>

lemma calc_price_generic_eq:
  "t0 \<noteq> 0 \<Longrightarrow> calc_price_generic t0 t1 round_up =
     from_limbs_slice (if round_up then div_ceil (t1 * const_1e27) t0 else t1 * const_1e27 div t0)"
  by (simp add: calc_price_generic_def calc_price_inner_def up_or_down_def div_round_def)

lemma u128_times_1e27_fits: "unat (t1 :: u128) * const_1e27 < 2 ^ 256"
proof -
  have "unat t1 * const_1e27 < 2 ^ 128 * const_1e27"
    using unat_u128_lt [of t1] by simp
  also have "\<dots> \<le> 2 ^ 256"
    by (simp add: ray_consts)
  finally show ?thesis .
qed

lemma calc_price_up_returns:
  assumes "(t0 :: u128) \<noteq> 0"
  shows "\<exists>p. calc_price_generic (unat t0) (unat (t1 :: u128)) True = Some p
             \<and> unat p = div_ceil (unat t1 * const_1e27) (unat t0)"
proof -
  have "div_ceil (unat t1 * const_1e27) (unat t0) < 2 ^ 256"
    using assms div_ceil_le_self [of "unat t0" "unat t1 * const_1e27"] u128_times_1e27_fits [of t1]
    by (simp add: unat_gt_0)
  then show ?thesis
    using assms by (simp add: calc_price_generic_eq from_limbs_slice_def unat_of_nat unat_eq_zero)
qed

interpretation price_of_amounts: rounding_pair "\<lambda>t0. (t0 :: u128) \<noteq> 0"
  "\<lambda>t0 (t1 :: u128). calc_price_generic (unat t0) (unat t1) True"
  "\<lambda>t0 p. quantity_at p t0 False" "\<lambda>_. True"
proof unfold_locales
  fix t0 :: u128 and p :: ray and y t1 :: u128
  assume t0: "t0 \<noteq> 0" and y: "quantity_at p t0 False = Some y"
  obtain x where x: "calc_price_generic (unat t0) (unat t1) True = Some x"
      "unat x = div_ceil (unat t1 * const_1e27) (unat t0)"
    using calc_price_up_returns t0 by blast
  show "(\<exists>x. calc_price_generic (unat t0) (unat t1) True = Some x \<and> x \<le> p) \<longleftrightarrow> t1 \<le> y"
    using t0 x y
    by (auto simp: quantity_at_eq word_le_nat_alt [of x] le_saturating_iff div_ceil_le_iff
        le_div_floor_iff unat_gt_0)
qed (auto simp: quantity_at_eq)

lemma sqrt_square_fits:
  "div_ceil (as_price_x192 p * const_1e27) const_2_192 < 2 ^ 256"
  "as_price_x192 p * const_1e27 div const_2_192 < 2 ^ 256"
proof -
  have "as_price_x192 p \<le> 2 ^ 160 * 2 ^ 160"
    unfolding as_price_x192_def using unat_u160_lt [of p] by (intro mult_le_mono) auto
  then have "as_price_x192 p * const_1e27 \<le> 2 ^ 160 * 2 ^ 160 * 2 ^ 90"
    using mult_le_mono [of _ _ const_1e27 "2 ^ 90"] by (simp add: ray_consts)
  also have "\<dots> = 2 ^ 218 * const_2_192"
    by (simp add: ray_consts)
  finally have "div_ceil (as_price_x192 p * const_1e27) const_2_192 \<le> 2 ^ 218"
    by (simp add: div_ceil_le_iff)
  then show "div_ceil (as_price_x192 p * const_1e27) const_2_192 < 2 ^ 256"
    by (rule le_less_trans) simp
  then show "as_price_x192 p * const_1e27 div const_2_192 < 2 ^ 256"
    using div_floor_le_ceil le_less_trans ray_consts_pos(4) by blast
qed

lemma convert_sqrtpricex96_returns:
  "\<exists>r. convert_sqrtpricex96 p round_up = Some r \<and>
       unat r = (if round_up then div_ceil (as_price_x192 p * const_1e27) const_2_192
                 else as_price_x192 p * const_1e27 div const_2_192)"
  using sqrt_square_fits [of p]
  by (simp add: convert_sqrtpricex96_def up_or_down_def div_round_def from_limbs_slice_def
      unat_of_nat)

text \<open>The square-root price of a ray is the least one whose ray is not below it.\<close>

lemma sqrt_from_ray_eq:
  "sqrt_from_ray r = from_limbs_slice (ceiling_sqrt (div_ceil (unat r * const_2_192) const_1e27))"
  by (simp add: sqrt_from_ray_def div_round_def)

lemma from_limbs_slice_le_iff:
  "(\<exists>x. from_limbs_slice n = Some x \<and> x \<le> (b :: 'a::len word)) \<longleftrightarrow> n \<le> unat b"
  by (auto simp: from_limbs_slice_def word_le_nat_alt unat_of_nat)
    (use unat_lt2p [of b] in linarith)

interpretation sqrt_price: rounding_pair "\<lambda>_ :: unit. True" "\<lambda>_. sqrt_from_ray"
  "\<lambda>_. ray_from_sqrt" "\<lambda>_. True"
proof unfold_locales
  fix b :: u160 and y a :: ray
  assume y: "ray_from_sqrt b = Some y"
  have "(\<exists>x. sqrt_from_ray a = Some x \<and> x \<le> b)
          \<longleftrightarrow> unat a * const_2_192 \<le> as_price_x192 b * const_1e27"
    by (simp add: sqrt_from_ray_eq from_limbs_slice_le_iff ceiling_sqrt_le_iff div_ceil_le_iff
        as_price_x192_def)
  also have "\<dots> \<longleftrightarrow> a \<le> y"
    using convert_sqrtpricex96_returns [of b False] y
    by (auto simp: ray_from_sqrt_def word_le_nat_alt le_div_floor_iff)
  finally show "(\<exists>x. sqrt_from_ray a = Some x \<and> x \<le> b) \<longleftrightarrow> a \<le> y" .
qed (use convert_sqrtpricex96_returns in \<open>auto simp: ray_from_sqrt_def\<close>)

section \<open>Round trips\<close>

lemma inverse_quantity_exact:
  "inverse_quantity p q True = Some x \<Longrightarrow> x \<noteq> - 1 \<Longrightarrow>
     p \<noteq> 0 \<and> unat x = div_ceil (unat q * const_1e27) (unat p)"
  by (auto simp: inverse_quantity_eq saturating_from_def unat_of_nat split: if_splits)

text \<open>
  C32. Converting an amount of token 1 into token 0 with rounding up gives exactly the least
  amount of token 0 whose value at that price, rounded down, covers it; the only exception
  is a result that saturates the 128-bit range.
\<close>

theorem inverse_quantity_least:
  assumes "inverse_quantity p q True = Some x" and "x \<noteq> - 1"
  shows "\<exists>y. quantity_at p x' False = Some y \<and> (q \<le> y \<longleftrightarrow> x \<le> x')"
  using inverse_quantity_exact [OF assms]
  by (simp add: quantity_at_eq le_saturating_iff le_div_floor_iff word_le_nat_alt [of x]
      div_ceil_le_iff unat_gt_0 mult.commute)

theorem inverse_quantity_least_witness:
  "inverse_quantity (3 * 10 ^ 27) 100 True = Some 34 \<and>
   (\<exists>y. quantity_at (3 * 10 ^ 27) 34 False = Some y \<and> (100 \<le> y \<longleftrightarrow> (34 :: u128) \<le> 34))"
proof -
  have "inverse_quantity (3 * 10 ^ 27) 100 True = Some 34"
    by (simp add: inverse_quantity_eq ray_consts div_ceil_def saturating_from_def)
  then show ?thesis
    using inverse_quantity_least [of "3 * 10 ^ 27" 100 34 34] by simp
qed

text \<open>
  C33. Conversion between rays and square-root prices. From a square-root price to a ray it
  never panics. The square-root price computed from a ray is the least one whose ray is not
  below the given ray, and the conversion panics exactly when no 160-bit price has that
  property.
\<close>

theorem sqrt_from_ray_least:
  "\<exists>r'. ray_from_sqrt s = Some r' \<and> ((\<exists>x. sqrt_from_ray r = Some x \<and> x \<le> s) \<longleftrightarrow> r \<le> r')"
  using sqrt_price.down_returns [of s] sqrt_price.adjoint [of s _ r] by blast

lemma sqrt_root_fits: "ceiling_sqrt (div_ceil (unat (r :: ray) * const_2_192) const_1e27) < 2 ^ 256"
proof -
  have "unat r * const_2_192 \<le> 2 ^ 256 * 2 ^ 192"
    using unat_u256_lt [of r] by (intro mult_le_mono) (auto simp: ray_consts)
  also have "\<dots> \<le> (2 ^ 255 * 2 ^ 255) * const_1e27"
    by (simp add: ray_consts)
  finally have "ceiling_sqrt (div_ceil (unat r * const_2_192) const_1e27) \<le> 2 ^ 255"
    by (simp add: ceiling_sqrt_le_iff div_ceil_le_iff del: power_numeral)
  then show ?thesis
    by (rule le_less_trans) simp
qed

lemma within_sqrt_price_bounds_eq:
  "within_sqrt_price_bounds mn mx r =
     (let n = ceiling_sqrt (div_ceil (unat r * const_2_192) const_1e27)
      in Some (unat mn < n \<and> n < unat mx))"
  using sqrt_root_fits [of r]
  by (simp add: within_sqrt_price_bounds_def div_round_def from_limbs_slice_def Let_def
      word_less_nat_alt unat_of_nat)

text \<open>
  The bounds check on a price never panics, and a price that passes it converts to a
  square-root price without panicking, with the result strictly inside the bounds, as long
  as the upper bound itself is a 160-bit number.
\<close>

theorem within_sqrt_price_bounds_sound:
  assumes "unat mx \<le> 2 ^ 160"
  shows "\<exists>b. within_sqrt_price_bounds mn mx r = Some b \<and>
             (b \<longrightarrow> (\<exists>s. sqrt_from_ray r = Some s \<and> unat mn < unat s \<and> unat s < unat mx))"
  using assms by (auto simp: within_sqrt_price_bounds_eq Let_def sqrt_from_ray_eq
      from_limbs_slice_def unat_of_nat)

lemma scale_to_fee_eq:
  "scale_to_fee r fee = Some (of_nat (unat r * (const_1e6 - unat fee) div const_1e6))"
proof -
  have "unat r * (const_1e6 - unat fee) div const_1e6 \<le> unat r"
    by (metis diff_le_self div_le_mono mult_le_mono2 nonzero_mult_div_cancel_right ray_consts_nz(2))
  then show ?thesis
    using unat_u256_lt [of r]
    by (simp add: scale_to_fee_def div_round_def from_limbs_slice_def unat_eq_zero [symmetric])
qed

lemma unat_scale_to_fee:
  "scale_to_fee r fee = Some s \<Longrightarrow> unat s = unat r * (const_1e6 - unat fee) div const_1e6 \<and> s \<le> r"
proof -
  assume s: "scale_to_fee r fee = Some s"
  have "unat r * (const_1e6 - unat fee) div const_1e6 \<le> unat r"
    by (metis diff_le_self div_le_mono mult_le_mono2 nonzero_mult_div_cancel_right ray_consts_nz(2))
  then show ?thesis
    using s unat_u256_lt [of r] by (auto simp: scale_to_fee_eq unat_of_nat word_le_nat_alt)
qed

theorem within_sqrt_price_bounds_sound_witness:
  "unat (1461446703485210103287273052203988822378723970342 :: u256) \<le> 2 ^ 160 \<and>
   within_sqrt_price_bounds 4295128739 1461446703485210103287273052203988822378723970342 (10 ^ 27)
     = Some True \<and>
   (\<exists>s. sqrt_from_ray (10 ^ 27) = Some s \<and> unat (4295128739 :: u256) < unat s)"
proof -
  let ?mx = "1461446703485210103287273052203988822378723970342 :: u256"
  have "div_ceil (unat (10 ^ 27 :: u256) * const_2_192) const_1e27 = 2 ^ 96 * 2 ^ 96"
    using div_ceil_exact [of const_1e27 "2 ^ 96 * 2 ^ 96"] by (simp add: ray_consts)
  then have "within_sqrt_price_bounds 4295128739 ?mx (10 ^ 27) = Some True"
    unfolding within_sqrt_price_bounds_eq by (simp only: ceiling_sqrt_square) simp
  moreover have "unat ?mx \<le> 2 ^ 160"
    by simp
  ultimately show ?thesis
    using within_sqrt_price_bounds_sound [of ?mx 4295128739 "10 ^ 27"] by auto
qed

text \<open>
  C34. Undoing a fee and applying it again gives back the price up to one unit in the last
  place, and never a larger one. It is not exact in general, because both steps round down.
\<close>

theorem unscale_then_scale:
  assumes "unat fee < const_1e6" and "unscale_to_fee r fee = Some u"
  shows "\<exists>v. scale_to_fee u fee = Some v \<and> unat v \<le> unat r \<and> unat r \<le> unat v + 1"
proof -
  define k where "k = const_1e6 - unat fee"
  have k: "0 < k" "k \<le> const_1e6"
    using assms(1) by (simp_all add: k_def)
  obtain v where v1: "scale_to_fee u fee = Some v"
    by (simp add: scale_to_fee_eq)
  have v: "scale_to_fee u fee = Some v" "unat v = unat u * k div const_1e6"
    using unat_scale_to_fee [OF v1] v1 by (simp_all add: k_def)
  have u: "unat u = unat r * const_1e6 div k"
    using assms by (auto simp: unscale_to_fee_def div_round_def panic_simps k_def
        split: if_splits)
  have "unat u * k \<le> unat r * const_1e6"
    by (simp add: u)
  then have "unat u * k div const_1e6 \<le> unat r"
    using div_le_mono [of "unat u * k" "unat r * const_1e6" const_1e6] by simp
  moreover
  have "unat r * const_1e6 < (unat v + 2) * const_1e6"
  proof -
    have "unat r * const_1e6 < unat u * k + k"
      using u k(1) dividend_less_div_times [of k "unat r * const_1e6"] by (simp add: add.commute)
    moreover have "unat u * k < unat v * const_1e6 + const_1e6"
      using v(2) dividend_less_div_times [of const_1e6 "unat u * k"] by (simp add: add.commute)
    ultimately show ?thesis
      using k(2) by simp
  qed
  then have "unat r < unat v + 2"
    using mult_less_cancel2 [of "unat r" const_1e6 "unat v + 2"] by blast
  ultimately show ?thesis
    using v by simp
qed

theorem unscale_then_scale_witness:
  "unat (1 :: u128) < const_1e6 \<and> unscale_to_fee 1 1 = Some 1 \<and> scale_to_fee 1 1 = Some 0 \<and>
   (\<exists>v. scale_to_fee 1 1 = Some v \<and> unat v \<le> unat (1 :: ray) \<and> unat (1 :: ray) \<le> unat v + 1)"
proof -
  have "unat (1 :: u128) < const_1e6" "unscale_to_fee 1 1 = Some 1" "scale_to_fee 1 1 = Some 0"
    by (simp_all add: unscale_to_fee_def scale_to_fee_eq div_round_def from_limbs_slice_def ray_consts)
  then show ?thesis
    using unscale_then_scale [of 1 1 1] by simp
qed

text \<open>
  An integer that fits a ray survives the round trip through it.
\<close>

theorem scale_to_ray_roundtrip:
  "scale_to_ray v = Some r \<Longrightarrow> scale_out_of_ray r = Some v"
  by (simp add: scale_to_ray_def scale_out_of_ray_def panic_simps)

theorem scale_to_ray_roundtrip_witness:
  "scale_to_ray 7 = Some (7 * 10 ^ 27) \<and> scale_out_of_ray (7 * 10 ^ 27) = Some 7"
proof -
  have "scale_to_ray 7 = Some (7 * 10 ^ 27)"
    by (simp add: scale_to_ray_def from_limbs_slice_def ray_consts)
  then show ?thesis
    using scale_to_ray_roundtrip [of 7 "7 * 10 ^ 27"] by simp
qed

lemma inv_ray_returns:
  "\<exists>i. inv_ray r = Some i \<and> unat i = (if r = 0 then 0 else const_1e54 div unat r)"
proof -
  have "const_1e54 div unat r < 2 ^ 256"
    by (rule le_less_trans [OF div_le_dividend]) (simp add: ray_consts)
  then show ?thesis
    by (simp add: inv_ray_def invert_def div_round_def from_limbs_slice_def unat_of_nat unat_eq_zero)
qed

end
