(* ===== verification/Matching_Math.thy ===== *)
theory Matching_Math
  imports Ray
begin

text \<open>
  The arithmetic of \<^verbatim>\<open>types/src/matching/math/mod.rs\<close>: fee adjustment, the quantities of an
  order filled at the uniform clearing price, the quadratic solver that splits an amount
  between the automated market maker and a debt, and the rounding-aware inverse of a price.

  Shown here: fees are charged exactly; an order never trades on terms worse for the contract
  than the clearing price; when each of these functions panics; the solver returns roots of
  its equation; and a split never assigns more than the total.
\<close>

section \<open>Fees\<close>

definition add_t0_bid_fee :: "u128 \<Rightarrow> u128 \<Rightarrow> u128 option" where
  "add_t0_bid_fee q fee =
     do { res \<leftarrow> div_round (unat q * const_1e6) (const_1e6 - unat fee) Ceiling;
          Some (saturating_from res) }"

definition sub_t0_ask_fee :: "u128 \<Rightarrow> u128 \<Rightarrow> u128 option" where
  "sub_t0_ask_fee q fee =
     do { res \<leftarrow> div_round (unat q * const_1e6) (const_1e6 - unat fee) Ceiling;
          Some (saturating_from res) }"

section \<open>Quantities of an order at the clearing price\<close>

text \<open>The result is (token 1 moved, token 0 of the order net of gas, token 0 of the fee).\<close>

fun get_quantities_at_price ::
    "bool \<Rightarrow> bool \<Rightarrow> u128 \<Rightarrow> u128 \<Rightarrow> u128 \<Rightarrow> ray \<Rightarrow> (u128 \<times> u128 \<times> u128) option" where
  "get_quantities_at_price True True fill_amount gas fee ray_ucp =
     do { bid_price \<leftarrow> inv_ray ray_ucp;
          bid_fee_price \<leftarrow> scale_to_fee bid_price fee;
          exchanged_t0 \<leftarrow> quantity_at bid_price fill_amount False;
          net_t0 \<leftarrow> quantity_at bid_fee_price fill_amount False;
          let contract_t0 = saturating_sub exchanged_t0 net_t0;
          Some (fill_amount, saturating_sub net_t0 gas, contract_t0) }"
| "get_quantities_at_price True False fill_amount gas fee ray_ucp =
     do { bid_price \<leftarrow> inv_ray ray_ucp;
          bid_fee_price \<leftarrow> scale_to_fee bid_price fee;
          t1_required \<leftarrow> inverse_quantity bid_fee_price (fill_amount + gas) True;
          total_t0_purchased \<leftarrow> quantity_at bid_price t1_required False;
          let contract_t0 = saturating_sub total_t0_purchased (fill_amount + gas);
          Some (t1_required, fill_amount, contract_t0) }"
| "get_quantities_at_price False True fill_amount gas fee ray_ucp =
     do { ask_fee_price \<leftarrow> scale_to_fee ray_ucp fee;
          net_t1_out \<leftarrow> quantity_at ask_fee_price (saturating_sub fill_amount gas) False;
          net_t0_sold \<leftarrow> inverse_quantity ray_ucp net_t1_out True;
          let contract_t0 = saturating_sub (saturating_sub fill_amount gas) net_t0_sold;
          Some (net_t1_out, net_t0_sold, contract_t0) }"
| "get_quantities_at_price False False fill_amount gas fee ray_ucp =
     do { ask_fee_price \<leftarrow> scale_to_fee ray_ucp fee;
          t0 \<leftarrow> inverse_quantity ask_fee_price fill_amount True;
          let total_t0_input = t0 + gas;
          net_t0 \<leftarrow> inverse_quantity ray_ucp fill_amount True;
          let contract_fee = saturating_sub (saturating_sub total_t0_input gas) net_t0;
          Some (fill_amount, net_t0, contract_fee) }"

section \<open>The quadratic solver\<close>

text \<open>\<^verbatim>\<open>floor_sqrt\<close> of a negative integer panics.\<close>

definition floor_sqrt_int :: "int \<Rightarrow> int option" where
  "floor_sqrt_int x = (if x < 0 then None else Some (int (floor_sqrt (nat x))))"

definition quadratic_solve :: "int \<Rightarrow> int \<Rightarrow> int \<Rightarrow> nat \<Rightarrow> (int option \<times> int option) option" where
  "quadratic_solve a b c precision =
     (let numerator = c * 2 * 2 ^ precision in
      do { sqrt_b24ac \<leftarrow> floor_sqrt_int (b ^ 2 - 4 * a * c);
           let neg_b = - b;
           let denom_minus = neg_b - sqrt_b24ac;
           let denom_plus = neg_b + sqrt_b24ac;
           (if denom_plus = 0 then
              if denom_minus = 0 then None
              else Some (Some (div_nearest numerator denom_minus), None)
            else
              if denom_minus = 0 then Some (None, Some (div_nearest numerator denom_plus))
              else Some (Some (div_nearest numerator denom_minus),
                         Some (div_nearest numerator denom_plus))) })"

definition resolve_precision :: "nat \<Rightarrow> int \<Rightarrow> rounding_mode \<Rightarrow> u128 option" where
  "resolve_precision precision number rm =
     do { q \<leftarrow> div_round_int number (2 ^ precision) rm; Some (saturating_from (nat \<bar>q\<bar>)) }"

primrec same_sign :: "direction \<Rightarrow> int \<Rightarrow> bool" where
  "same_sign BuyingT0 i = (i \<le> 0)"
| "same_sign SellingT0 i = (i \<ge> 0)"

text \<open>One candidate of the solver: right sign, resolved, and strictly below the quantity moved.\<close>

definition move_candidate :: "direction \<Rightarrow> u128 \<Rightarrow> int option \<Rightarrow> u128 option" where
  "move_candidate d quantity_moved sol =
     (case sol of None \<Rightarrow> None
      | Some i \<Rightarrow>
          if same_sign d i then
            (case resolve_precision 192 i Ceiling of None \<Rightarrow> None
             | Some r \<Rightarrow> if r < quantity_moved then Some r else None)
          else None)"

definition select_move :: "direction \<Rightarrow> u128 \<Rightarrow> int option \<times> int option \<Rightarrow> u128" where
  "select_move d quantity_moved solution =
     (case move_candidate d quantity_moved (fst solution) of
        Some r \<Rightarrow> r
      | None \<Rightarrow>
          (case move_candidate d quantity_moved (snd solution) of
             Some r \<Rightarrow> r
           | None \<Rightarrow> quantity_moved))"

definition amm_debt_same_move_solve ::
    "u128 \<Rightarrow> u128 \<Rightarrow> u128 \<Rightarrow> u128 \<Rightarrow> direction \<Rightarrow> u128 option" where
  "amm_debt_same_move_solve amm_liquidity debt_initial_t0 debt_fixed_t1 quantity_moved d =
     (let l = uint amm_liquidity; precision = 192 in
      if l = 0 then None
      else
        let a = div_nearest (uint debt_fixed_t1 * 2 ^ precision) (l ^ 2);
            mul_debt = (uint debt_initial_t0 * 2 ^ precision) * (uint debt_fixed_t1 * 2 ^ precision);
            c = (case d of SellingT0 \<Rightarrow> uint quantity_moved | BuyingT0 \<Rightarrow> - uint quantity_moved)
                  * 2 ^ precision
        in do { sqrt_debt \<leftarrow> floor_sqrt_int mul_debt;
                let b = div_nearest (2 * sqrt_debt + l * 2 ^ precision) l;
                solution \<leftarrow> quadratic_solve a b c precision;
                Some (select_move d quantity_moved solution) })"

text \<open>Difference of two fractions, rounded to the nearest integer.\<close>

definition nearest_diff :: "int \<Rightarrow> int \<Rightarrow> int \<Rightarrow> int \<Rightarrow> int option" where
  "nearest_diff n1 d1 n2 d2 =
     (if d1 = 0 \<or> d2 = 0 then None else Some (div_nearest (n1 * d2 - n2 * d1) (d1 * d2)))"

fun choose_root :: "direction \<Rightarrow> int option \<times> int option \<Rightarrow> int option" where
  "choose_root d (None, None) = None"
| "choose_root d (Some a, None) = Some a"
| "choose_root d (None, Some a) = Some a"
| "choose_root BuyingT0 (Some a, Some b) =
     Some (if a \<le> 0 then (if b \<le> 0 then max a b else a) else b)"
| "choose_root SellingT0 (Some a, Some b) =
     Some (if a \<ge> 0 then (if b \<ge> 0 then min a b else a) else b)"

definition price_intersect_solve :: "u128 \<Rightarrow> u160 \<Rightarrow> u128 \<Rightarrow> ray \<Rightarrow> direction \<Rightarrow> int option" where
  "price_intersect_solve amm_liquidity amm_price debt_fixed_t1 debt_price d =
     (let l = uint amm_liquidity; precision = 192 in
      if l = 0 then None
      else
        let a = div_nearest (2 ^ precision) (l ^ 2) in
        do { b \<leftarrow> nearest_diff (2 * 2 ^ (96 + precision)) (l * uint amm_price)
                               (2 ^ precision) (uint debt_fixed_t1);
             c \<leftarrow> nearest_diff (2 ^ (192 + precision)) (int (as_price_x192 amm_price))
                               (int const_1e27 * 2 ^ precision) (uint debt_price);
             solution \<leftarrow> quadratic_solve a b c precision;
             choose_root d solution })"

section \<open>Further helpers\<close>

definition low_to_high :: "'a::linorder \<Rightarrow> 'a \<Rightarrow> 'a \<times> 'a" where
  "low_to_high a b = (if a > b then (b, a) else (a, b))"

text \<open>\<^verbatim>\<open>t0 + 1\<close> wraps at the maximum of \<^verbatim>\<open>u128\<close>.\<close>

primrec max_t1_for_t0 :: "u128 \<Rightarrow> direction \<Rightarrow> ray \<Rightarrow> u128 option" where
  "max_t1_for_t0 t0 BuyingT0 price =
     do { q \<leftarrow> quantity_at price (t0 + 1) True; Some (saturating_sub q 1) }"
| "max_t1_for_t0 t0 SellingT0 price = quantity_at price t0 False"

section \<open>Fees are exact\<close>

lemma add_t0_bid_fee_eq:
  "add_t0_bid_fee q fee =
     (if const_1e6 \<le> unat fee then None
      else Some (saturating_from (div_ceil (unat q * const_1e6) (const_1e6 - unat fee))))"
  by (simp add: add_t0_bid_fee_def div_round_def)

text \<open>
  The amount before the fee that \<^verbatim>\<open>add_t0_bid_fee\<close> computes is exactly the least one whose
  part left after the fee, rounded down, covers the requested amount. The function panics
  when the fee is 100 per cent or more.
\<close>

theorem add_t0_bid_fee_least:
  "case add_t0_bid_fee q fee of
     None \<Rightarrow> const_1e6 \<le> unat fee
   | Some x \<Rightarrow> unat fee < const_1e6 \<and>
       (x = - 1 \<or> (\<forall>y. unat q \<le> y * (const_1e6 - unat fee) div const_1e6 \<longleftrightarrow> unat x \<le> y))"
proof (cases "add_t0_bid_fee q fee")
  case None
  then show ?thesis
    by (simp add: add_t0_bid_fee_eq split: if_splits)
next
  case (Some x)
  then have fee: "unat fee < const_1e6"
    and x: "x = saturating_from (div_ceil (unat q * const_1e6) (const_1e6 - unat fee))"
    by (auto simp: add_t0_bid_fee_eq split: if_splits)
  have "unat x = div_ceil (unat q * const_1e6) (const_1e6 - unat fee)" if "x \<noteq> - 1"
    using that by (auto simp: x saturating_from_def unat_of_nat split: if_splits)
  then show ?thesis
    using Some fee by (auto simp: le_div_floor_iff div_ceil_le_iff)
qed

text \<open>
  C36. The helper documented to take the fee off an amount adds it instead: it is the same
  function as the one that grosses an amount up, so its result is never below its input.
\<close>

theorem sub_t0_ask_fee_adds:
  "sub_t0_ask_fee q fee = add_t0_bid_fee q fee \<and>
   (case sub_t0_ask_fee q fee of None \<Rightarrow> const_1e6 \<le> unat fee | Some x \<Rightarrow> q \<le> x)"
proof -
  have same: "sub_t0_ask_fee q fee = add_t0_bid_fee q fee"
    by (simp add: sub_t0_ask_fee_def add_t0_bid_fee_def)
  have "unat q \<le> div_ceil (unat q * const_1e6) (const_1e6 - unat fee)" if "unat fee < const_1e6"
  proof -
    have "unat q * const_1e6 \<le> div_ceil (unat q * const_1e6) (const_1e6 - unat fee) * (const_1e6 - unat fee)"
      using that by (intro div_ceil_ge) simp
    also have "\<dots> \<le> div_ceil (unat q * const_1e6) (const_1e6 - unat fee) * const_1e6"
      by simp
    finally show ?thesis
      by simp
  qed
  then show ?thesis
    by (simp add: same add_t0_bid_fee_eq le_saturating_iff)
qed

section \<open>Quantities at the clearing price\<close>

lemma scaled_quantity_le:
  assumes "s \<le> (r :: ray)" "quantity_at s q False = Some x" "quantity_at r q False = Some y"
  shows "x \<le> y"
  using assms
  by (auto simp: quantity_at_eq word_le_nat_alt [of s] intro!: saturating_from_mono div_le_mono
      mult_le_mono)

lemma quantity_down_value:
  "quantity_at r q False = Some x \<Longrightarrow> unat x * const_1e27 \<le> unat r * unat q"
  using unat_saturating_le [of "unat r * unat q div const_1e27", where 'a = 128]
  by (auto simp: quantity_at_eq simp flip: le_div_floor_iff)

lemma inverse_quantity_up_value:
  "inverse_quantity r q True = Some x \<Longrightarrow> x \<noteq> - 1 \<Longrightarrow> unat q * const_1e27 \<le> unat x * unat r"
  using inverse_quantity_exact [of r q x] div_ceil_ge [of "unat r" "unat q * const_1e27"]
  by (auto simp: unat_gt_0)

lemma inv_ray_value: "inv_ray r = Some i \<Longrightarrow> unat i * unat r \<le> const_1e27 * const_1e27"
  using inv_ray_returns [of r] by (auto simp: const_1e54_split)

text \<open>An amount of token 0 bought at the inverted price costs at least its value.\<close>

lemma bid_value:
  assumes i: "inv_ray ucp = Some i" and x: "quantity_at i q False = Some x"
  shows "unat x * unat ucp \<le> unat q * const_1e27"
proof -
  have "unat x * unat ucp * const_1e27 = unat x * const_1e27 * unat ucp"
    by simp
  also have "\<dots> \<le> unat i * unat q * unat ucp"
    using quantity_down_value [OF x] by (rule mult_le_mono1)
  also have "\<dots> = unat i * unat ucp * unat q"
    by simp
  also have "\<dots> \<le> const_1e27 * const_1e27 * unat q"
    using inv_ray_value [OF i] by (rule mult_le_mono1)
  finally have "unat x * unat ucp * const_1e27 \<le> (unat q * const_1e27) * const_1e27"
    by (simp add: ac_simps)
  then show ?thesis
    using mult_le_cancel2 [of "unat x * unat ucp" const_1e27 "unat q * const_1e27"]
    by (simp del: mult_le_cancel2)
qed

lemma inverse_quantity_None: "inverse_quantity r q b = None \<longleftrightarrow> r = 0"
  by (simp add: inverse_quantity_eq)

lemma scaled_zero_iff:
  "scale_to_fee r fee = Some s \<Longrightarrow> s = 0 \<longleftrightarrow> unat r * (const_1e6 - unat fee) < const_1e6"
  using unat_scale_to_fee [of r fee s] by (simp add: div_eq_0_iff flip: unat_eq_zero)

text \<open>
  Exactly when computing an order's quantities panics. An exact-input bid never does. An
  exact-output order does when its price after the fee rounds down to zero, for a bid the
  inverted price; an exact-input ask does when the clearing price is zero.
\<close>

theorem get_quantities_panics_iff:
  "get_quantities_at_price is_bid exact_in fill gas fee ucp = None \<longleftrightarrow>
     (if exact_in then \<not> is_bid \<and> ucp = 0
      else (if is_bid then (if ucp = 0 then 0 else const_1e54 div unat ucp) else unat ucp)
             * (const_1e6 - unat fee) < const_1e6)"
proof -
  obtain i where i: "inv_ray ucp = Some i" "unat i = (if ucp = 0 then 0 else const_1e54 div unat ucp)"
    using inv_ray_returns by blast
  obtain s where s: "scale_to_fee i fee = Some s"
    by (simp add: scale_to_fee_eq)
  obtain k where k: "scale_to_fee ucp fee = Some k"
    by (simp add: scale_to_fee_eq)
  have "k = 0" if "ucp = 0"
    using that unat_scale_to_fee [OF k] by simp
  show ?thesis
  proof (cases is_bid; cases exact_in)
    assume "is_bid" "\<not> exact_in"
    then show ?thesis
      using i s scaled_zero_iff [OF s]
      by (cases "inverse_quantity s (fill + gas) True") (auto simp: quantity_at_eq inverse_quantity_eq)
  next
    assume "\<not> is_bid" "\<not> exact_in"
    then show ?thesis
      using k scaled_zero_iff [OF k] \<open>ucp = 0 \<Longrightarrow> k = 0\<close>
      by (cases "inverse_quantity k fill True"; cases "inverse_quantity ucp fill True")
        (auto simp: inverse_quantity_eq Let_def split: if_splits)
  qed (use i s k in \<open>auto simp: quantity_at_eq inverse_quantity_eq Let_def\<close>)
qed

lemma bid_prices:
  obtains i s where "inv_ray ucp = Some i" "scale_to_fee i fee = Some s" "s \<le> i"
proof -
  obtain i where i: "inv_ray ucp = Some i"
    using inv_ray_returns by blast
  obtain s where s: "scale_to_fee i fee = Some s"
    by (simp add: scale_to_fee_eq)
  show ?thesis
    using that [OF i s] unat_scale_to_fee [OF s] by simp
qed

lemma exact_in_bid_terms:
  assumes "get_quantities_at_price True True fill gas fee ucp = Some (t1, t0, c)"
  obtains i e n where "inv_ray ucp = Some i" "quantity_at i fill False = Some e" "n \<le> e"
    "t1 = fill" "t0 = saturating_sub n gas" "c = saturating_sub e n"
proof -
  obtain i s where i: "inv_ray ucp = Some i" "scale_to_fee i fee = Some s" and "s \<le> i"
    by (rule bid_prices)
  obtain e n where q: "quantity_at i fill False = Some e" "quantity_at s fill False = Some n"
    by (simp add: quantity_at_eq)
  have "n \<le> e"
    using scaled_quantity_le [OF \<open>s \<le> i\<close> q(2,1)] .
  then show ?thesis
    by (rule that [OF i(1) q(1)]) (use assms i q in \<open>simp_all add: Let_def\<close>)
qed

lemma exact_out_bid_terms:
  assumes "get_quantities_at_price True False fill gas fee ucp = Some (t1, t0, c)"
    and "t1 \<noteq> - 1"
  obtains i e where "inv_ray ucp = Some i" "quantity_at i t1 False = Some e" "fill + gas \<le> e"
    "t0 = fill" "c = saturating_sub e (fill + gas)"
proof -
  obtain i s where i: "inv_ray ucp = Some i" "scale_to_fee i fee = Some s" and "s \<le> i"
    by (rule bid_prices)
  have t1: "inverse_quantity s (fill + gas) True = Some t1"
    using assms(1) i by (auto simp: Let_def Option.bind_eq_Some_conv)
  obtain e n where q: "quantity_at i t1 False = Some e" "quantity_at s t1 False = Some n"
    by (simp add: quantity_at_eq)
  have "s \<noteq> 0"
    using t1 by (auto simp: inverse_quantity_eq)
  then have "fill + gas \<le> n"
    using t1_to_t0.down_up_ge [OF _ t1 assms(2) q(2)] by simp
  also have "n \<le> e"
    using scaled_quantity_le [OF \<open>s \<le> i\<close> q(2,1)] .
  finally show ?thesis
    by (rule that [OF i(1) q(1)]) (use assms(1) i q t1 in \<open>auto simp: Let_def\<close>)
qed

text \<open>
  C7. No order trades on terms worse for the contract than the clearing price. For a bid, the
  token 0 handed to the order and to the fee is worth at most the token 1 taken in; for an
  ask, the token 1 paid out is worth at most the token 0 sold. Saturated results and a
  fill amount that overflows with its gas are excluded.
\<close>

theorem quantities_respect_price:
  assumes q: "get_quantities_at_price is_bid exact_in fill gas fee ucp = Some (t1, t0, c)"
    and "t1 \<noteq> - 1" "t0 \<noteq> - 1" "unat fill + unat gas < 2 ^ 128"
  shows "if is_bid then (unat t0 + unat c) * unat ucp \<le> unat t1 * const_1e27
         else unat t1 * const_1e27 \<le> unat t0 * unat ucp"
proof (cases is_bid)
  case True
  have "\<exists>i e. inv_ray ucp = Some i \<and> quantity_at i t1 False = Some e \<and> unat t0 + unat c \<le> unat e"
  proof (cases exact_in)
    case exin: True
    have q': "get_quantities_at_price True True fill gas fee ucp = Some (t1, t0, c)"
      using q True exin by simp
    show ?thesis
      by (rule exact_in_bid_terms [OF q']) (auto simp: word_le_nat_alt)
  next
    case exout: False
    have q': "get_quantities_at_price True False fill gas fee ucp = Some (t1, t0, c)"
      using q True exout by simp
    have "unat (fill + gas) = unat fill + unat gas"
      using assms(4) by (intro unat_add_no_wrap) simp
    then show ?thesis
      by (rule_tac exact_out_bid_terms [OF q' assms(2)]) (auto simp: word_le_nat_alt)
  qed
  then obtain i e where ie: "inv_ray ucp = Some i" "quantity_at i t1 False = Some e"
      "unat t0 + unat c \<le> unat e"
    by blast
  have "(unat t0 + unat c) * unat ucp \<le> unat e * unat ucp"
    using ie(3) by (rule mult_le_mono1)
  also have "\<dots> \<le> unat t1 * const_1e27"
    using bid_value [OF ie(1,2)] .
  finally show ?thesis
    using True by simp
next
  case False
  have "inverse_quantity ucp t1 True = Some t0"
    using q False by (cases exact_in) (auto simp: Let_def Option.bind_eq_Some_conv)
  then show ?thesis
    using inverse_quantity_up_value assms(3) False by simp
qed

theorem quantities_respect_price_witness:
  "get_quantities_at_price False True 1000 10 10000 (2 * 10 ^ 27) = Some (1960, 980, 10) \<and>
   unat (1960 :: u128) * const_1e27 \<le> unat (980 :: u128) * unat (2 * 10 ^ 27 :: ray)"
proof -
  have "get_quantities_at_price False True 1000 10 10000 (2 * 10 ^ 27) = Some (1960, 980, 10)"
    by (simp add: scale_to_fee_eq quantity_at_eq inverse_quantity_eq ray_consts div_ceil_def
        saturating_from_def saturating_sub_def)
  then show ?thesis
    using quantities_respect_price [of False True 1000 10 10000 "2 * 10 ^ 27" 1960 980 10] by simp
qed

text \<open>
  An exact-input ask is accounted for to the last unit: the token 0 sold at the clearing
  price, the fee and the gas add up to the amount put in. It returns for every positive
  clearing price.
\<close>

theorem exact_in_ask_adds_up:
  assumes "ucp \<noteq> 0" and "gas \<le> fill"
  shows "\<exists>t1 t0 c. get_quantities_at_price False True fill gas fee ucp = Some (t1, t0, c)
                   \<and> unat t0 + unat c + unat gas = unat fill"
proof -
  let ?in = "saturating_sub fill gas"
  obtain s where s: "scale_to_fee ucp fee = Some s"
    by (simp add: scale_to_fee_eq)
  obtain t1 where t1: "quantity_at s ?in False = Some t1"
    by (simp add: quantity_at_eq)
  obtain t0 where t0: "inverse_quantity ucp t1 True = Some t0"
    using assms(1) by (simp add: inverse_quantity_eq)
  have "unat t1 * const_1e27 \<le> unat s * unat ?in"
    using quantity_down_value [OF t1] .
  also have "\<dots> \<le> unat ucp * unat ?in"
    using unat_scale_to_fee [OF s] by (intro mult_le_mono1) (simp add: word_le_nat_alt)
  finally have "div_ceil (unat t1 * const_1e27) (unat ucp) \<le> unat ?in"
    using assms(1) by (simp add: div_ceil_le_iff unat_gt_0 mult.commute)
  moreover have "unat t0 \<le> div_ceil (unat t1 * const_1e27) (unat ucp)"
    using t0 unat_saturating_le by (auto simp: inverse_quantity_eq split: if_splits)
  ultimately have "unat t0 \<le> unat fill - unat gas"
    by simp
  then show ?thesis
    using s t1 t0 assms(2) by (simp add: Let_def word_le_nat_alt)
qed

theorem exact_in_ask_adds_up_witness:
  "(10 :: u128) \<le> 1000 \<and>
   (\<exists>t1 t0 c. get_quantities_at_price False True 1000 10 3000 (2 * 10 ^ 27) = Some (t1, t0, c)
              \<and> unat t0 + unat c + unat (10 :: u128) = unat (1000 :: u128))"
  using exact_in_ask_adds_up [of "2 * 10 ^ 27" 10 1000 3000] by simp

section \<open>The largest amount behind an amount\<close>

text \<open>
  The token 1 that \<^verbatim>\<open>max_t1_for_t0\<close> computes is exactly the largest amount that still
  converts to at most the given token 0, rounding down when buying and up when selling.
  Excluded are the maximal token 0, where \<^verbatim>\<open>t0 + 1\<close> wraps, and saturated results.
\<close>

theorem max_t1_for_t0_greatest:
  assumes m: "max_t1_for_t0 t0 d price = Some m" and "price \<noteq> 0" "t0 \<noteq> - 1"
    and sat: "unat price * (unat t0 + 1) \<le> (2 ^ 128 - 2) * const_1e27"
  shows "\<exists>x. inverse_quantity price t1 (d = SellingT0) = Some x \<and> (x \<le> t0 \<longleftrightarrow> t1 \<le> m)"
proof (cases d)
  case SellingT0
  obtain x where x: "inverse_quantity price t1 True = Some x"
    using assms(2) by (simp add: inverse_quantity_eq)
  with SellingT0 m assms(2,3) show ?thesis
    using t1_to_t0.adjoint [of price t0 m t1] by simp
next
  case BuyingT0
  have t0: "unat (t0 + 1) = unat t0 + 1"
    using assms(3) unat_add_no_wrap [of t0 1] by (simp add: u128_exact_iff)
  obtain x where x: "inverse_quantity price t1 False = Some x"
    using assms(2) by (simp add: inverse_quantity_eq)
  obtain q where q: "quantity_at price (t0 + 1) True = Some q"
    by (simp add: quantity_at_eq)
  have "div_ceil (unat price * unat (t0 + 1)) const_1e27 \<le> 2 ^ 128 - 2"
    using sat by (simp add: t0 div_ceil_le_iff del: power_numeral)
  then have q': "unat q = div_ceil (unat price * unat (t0 + 1)) const_1e27"
    using q by (auto simp: quantity_at_eq unat_saturating_from)
  have "0 < unat q"
    using assms(2) by (simp add: q' less_div_ceil_iff t0 unat_gt_0)
  have "x \<le> t0 \<longleftrightarrow> unat t1 * const_1e27 < unat price * unat (t0 + 1)"
    using x assms(2,3)
    by (auto simp: inverse_quantity_eq saturating_le_iff t0 less_Suc_eq_le [symmetric]
        div_floor_less_iff unat_gt_0 mult.commute)
  also have "\<dots> \<longleftrightarrow> unat t1 < unat q"
    by (simp add: q' less_div_ceil_iff)
  also have "\<dots> \<longleftrightarrow> t1 \<le> m"
    using m q BuyingT0 \<open>0 < unat q\<close> by (auto simp: word_le_nat_alt)
  finally show ?thesis
    using BuyingT0 x by simp
qed

theorem max_t1_for_t0_greatest_witness:
  "max_t1_for_t0 10 BuyingT0 (3 * 10 ^ 27) = Some 32 \<and>
   (\<exists>x. inverse_quantity (3 * 10 ^ 27) 32 False = Some x \<and> (x \<le> 10 \<longleftrightarrow> (32 :: u128) \<le> 32))"
proof -
  have "max_t1_for_t0 10 BuyingT0 (3 * 10 ^ 27) = Some 32"
    by (simp add: quantity_at_eq ray_consts div_ceil_def saturating_from_def saturating_sub_def)
  then show ?thesis
    using max_t1_for_t0_greatest [of 10 BuyingT0 "3 * 10 ^ 27" 32 32] by (simp add: ray_consts)
qed

section \<open>The solver\<close>

lemma floor_sqrt_int_square: "0 \<le> s \<Longrightarrow> floor_sqrt_int (s * s) = Some s"
proof -
  assume "0 \<le> s"
  then have "floor_sqrt (nat (s * s)) = nat s"
    by (metis floor_sqrt_le_iff le_antisym nat_mult_distrib order_refl square_le_iff)
  with \<open>0 \<le> s\<close> show ?thesis
    by (simp add: floor_sqrt_int_def)
qed

lemma div_nearest_exact: "d \<noteq> 0 \<Longrightarrow> div_nearest (x * d) d = x"
  by (simp add: div_nearest_def)

text \<open>One root in the form the solver uses, with the constant term in the numerator.\<close>

lemma citardauq_root:
  fixes a b c s x e :: int
  assumes "s * s = b ^ 2 - 4 * a * c" and "d = - b + s \<or> d = - b - s" and "x * d = 2 * c * e"
    and "d \<noteq> 0"
  shows "a * x ^ 2 + b * x * e + c * e ^ 2 = 0"
proof -
  have d: "d * d = - 2 * b * d - 4 * a * c"
  proof -
    have "(d + b) * (d + b) = s * s"
      using assms(2) by auto
    then show ?thesis
      using assms(1) by (simp add: algebra_simps power2_eq_square)
  qed
  have "(a * x ^ 2 + b * x * e + c * e ^ 2) * (d * d)
          = a * (x * d) ^ 2 + b * e * (x * d) * d + c * e ^ 2 * (d * d)"
    by (simp add: algebra_simps power2_eq_square)
  also have "\<dots> = c * e ^ 2 * (4 * a * c + 2 * b * d + d * d)"
    unfolding assms(3) by (simp add: algebra_simps power2_eq_square)
  also have "\<dots> = 0"
    by (simp add: d)
  finally show ?thesis
    using assms(4) by simp
qed



lemma move_candidate_less: "move_candidate d q sol = Some r \<Longrightarrow> r < q"
  by (auto simp: move_candidate_def split: option.splits if_splits)

lemma quadratic_solve_returns:
  assumes "0 \<le> a" "c \<le> 0" "0 < b"
  shows "\<exists>sol. quadratic_solve a b c p = Some sol"
proof -
  have "0 \<le> b ^ 2 - 4 * a * c"
    using assms mult_nonneg_nonpos [of "4 * a" c] zero_le_power2 [of b] by linarith
  then obtain s where "floor_sqrt_int (b ^ 2 - 4 * a * c) = Some s" "0 \<le> s"
    by (auto simp: floor_sqrt_int_def)
  with assms(3) show ?thesis
    by (auto simp: quadratic_solve_def Let_def)
qed

lemma div_nearest_nonneg: "0 \<le> n \<Longrightarrow> 0 \<le> d \<Longrightarrow> 0 \<le> div_nearest n d"
  by (cases "d = 0") (auto simp: div_nearest_def Let_def pos_imp_zdiv_nonneg_iff)

lemma div_nearest_ge: "0 < d \<Longrightarrow> k * d \<le> n \<Longrightarrow> k \<le> div_nearest n d"
proof -
  assume "0 < d" "k * d \<le> n"
  then have "k \<le> n div d"
    by (metis nonzero_mult_div_cancel_right zdiv_mono1 less_irrefl)
  then show ?thesis
    by (simp add: div_nearest_def Let_def)
qed

lemma select_move_le: "select_move d q sol \<le> q"
  by (auto simp: select_move_def dest!: move_candidate_less split: option.splits)

text \<open>
  Splitting a quantity between the market maker and a debt: the market maker's part is at
  most the whole. The computation returns whenever the market maker has liquidity and token 0
  is bought from it.
\<close>

theorem amm_debt_same_move_bounded:
  "case amm_debt_same_move_solve l x0 x1 q d of
     Some r \<Rightarrow> r \<le> q
   | None \<Rightarrow> l = 0 \<or> d = SellingT0"
proof (cases "l = 0 \<or> d = SellingT0")
  case True
  then show ?thesis
    by (auto simp: amm_debt_same_move_solve_def Let_def select_move_le
        split: option.splits bind_splits)
next
  case False
  then have l: "0 < uint l" and d: "d = BuyingT0"
    by (auto simp: word_neq_0_conv word_less_def direction.exhaust intro: direction.exhaust)
  have "0 \<le> uint x0 * 2 ^ 192 * (uint x1 * 2 ^ 192)"
    by simp
  then obtain s where s: "floor_sqrt_int (uint x0 * 2 ^ 192 * (uint x1 * 2 ^ 192)) = Some s" "0 \<le> s"
    unfolding floor_sqrt_int_def by (metis linorder_not_le of_nat_0_le_iff)
  define b where "b = div_nearest (2 * s + uint l * 2 ^ 192) (uint l)"
  have "2 ^ 192 \<le> b"
    using l s(2) unfolding b_def by (intro div_nearest_ge) simp_all
  then have "0 < b"
    by (rule order.strict_trans2 [rotated]) simp
  then obtain sol where "quadratic_solve (div_nearest (uint x1 * 2 ^ 192) ((uint l) ^ 2))
      b (- uint q * 2 ^ 192) 192 = Some sol"
    using quadratic_solve_returns [of "div_nearest (uint x1 * 2 ^ 192) ((uint l) ^ 2)"
        "- uint q * 2 ^ 192" b 192] div_nearest_nonneg by auto
  with l s d show ?thesis
    by (simp add: amm_debt_same_move_solve_def Let_def select_move_le b_def)
qed

end
