(* ===== verification/Order_Data.thy ===== *)
theory Order_Data
  imports Order_Types Matching_Math
begin

text \<open>
  What the node keeps about an order: the ids, priorities, statuses and fill states of
  \<^verbatim>\<open>types/src/orders\<close>, the priority in which a user's orders are funded from
  \<^verbatim>\<open>types/src/sol_bindings/ext/mod.rs\<close>, and \<^verbatim>\<open>OrderWithStorageData\<close> of
  \<^verbatim>\<open>types/src/sol_bindings/ext/grouped_orders.rs\<close>.
\<close>

section \<open>Errors and statuses\<close>

record user_order_pool_info =
  info_token :: address
  info_is_bid :: bool
  info_pool_id :: b256

datatype user_account_verification_error =
    BlockMissMatch u64 u64 user_order_pool_info
  | OrderIsCancelled b256
  | DuplicateNonce b256
  | BadBlock u64 u64
  | NonEmptyHook
  | CouldNotFetch string
  | InsufficientApproval b256 address u128
  | InsufficientBalance b256 address u128
  | InsufficientBoth b256 address u128 u128
  | UnknownAccountError string

datatype order_validation_error =
    StateError user_account_verification_error
  | InvalidToBSwap
  | InvalidPartialOrder
  | InvalidSignature
  | InvalidPool
  | NotEnoughGas
  | DuplicateOrder
  | InvalidOrderAtBlock
  | NoAmountSpecified
  | MaxGasGreaterThanMinAmount
  | NoGasSpecified
  | NoPriceSpecified
  | PriceOutOfPoolBounds
  | CancelledOrder
  | UnknownValidationError string

datatype order_status =
    Filled
  | Pending
  | Blocked address u128 u128
  | OrderNotFound

text \<open>Token, approval needed, balance needed; None is the error of the conversion.\<close>

fun status_of_error :: "user_account_verification_error \<Rightarrow> order_status option" where
  "status_of_error (InsufficientBoth h token bal appr) = Some (Blocked token appr bal)"
| "status_of_error (InsufficientBalance h token amt) = Some (Blocked token 0 amt)"
| "status_of_error (InsufficientApproval h token amt) = Some (Blocked token amt 0)"
| "status_of_error (UnknownAccountError e) = Some (Blocked 0 0 0)"
| "status_of_error e = None"

section \<open>Ids and priorities\<close>

record order_id =
  oid_address :: address
  oid_pool_id :: b256
  oid_hash :: b256
  oid_reuse_avoidance :: respend_avoidance_method
  oid_deadline :: "u256 option"
  oid_flash_block :: "u64 option"
  oid_location :: order_location

definition from_all_orders :: "pool_order \<Rightarrow> b256 \<Rightarrow> b256 \<Rightarrow> order_id" where
  "from_all_orders x hash pool =
     \<lparr>oid_address = order_from x, oid_pool_id = pool, oid_hash = hash,
      oid_reuse_avoidance = respend_avoidance_strategy x, oid_deadline = deadline x,
      oid_flash_block = flash_block x, oid_location = order_location x\<rparr>"

datatype order_priority_data =
  OrderPriorityData (opd_price: u256) (opd_volume: u128) (opd_gas: u256) (opd_gas_units: u64)

definition order_priority_cmp :: "order_priority_data \<Rightarrow> order_priority_data \<Rightarrow> ordering" where
  "order_priority_cmp a b =
     then_with (cmp (opd_price a) (opd_price b))
       (then_with (cmp (opd_volume a) (opd_volume b))
          (then_with (cmp (opd_gas a) (opd_gas b)) (cmp (opd_gas_units a) (opd_gas_units b))))"

definition opd_key :: "order_priority_data \<Rightarrow> u256 \<times> u128 \<times> u256 \<times> u64" where
  "opd_key a = (opd_price a, opd_volume a, opd_gas a, opd_gas_units a)"

lemma order_priority_cmp_key: "order_priority_cmp a b = cmp (opd_key a) (opd_key b)"
  by (simp add: order_priority_cmp_def opd_key_def cmp_pair)

lemma opd_key_eq: "opd_key a = opd_key b \<longleftrightarrow> a = b"
  by (cases a; cases b) (simp add: opd_key_def)

instantiation order_priority_data :: linorder
begin

definition less_eq_order_priority_data :: "order_priority_data \<Rightarrow> order_priority_data \<Rightarrow> bool" where
  "a \<le> b \<longleftrightarrow> order_priority_cmp a b \<noteq> Greater"

definition less_order_priority_data :: "order_priority_data \<Rightarrow> order_priority_data \<Rightarrow> bool" where
  "a < b \<longleftrightarrow> order_priority_cmp a b = Less"

instance
  by standard
    (auto simp: less_eq_order_priority_data_def less_order_priority_data_def order_priority_cmp_key
      opd_key_eq)

end

primrec get_ord_for_pending_orders :: "respend_avoidance_method \<Rightarrow> u64" where
  "get_ord_for_pending_orders (Nonce n) = n"
| "get_ord_for_pending_orders (Block b) = 0"

record order_validation_priority =
  ovp_order_hash :: b256
  ovp_is_tob :: bool
  ovp_is_partial :: bool
  ovp_respend :: respend_avoidance_method

definition validation_priority :: "pool_order \<Rightarrow> b256 \<Rightarrow> order_validation_priority" where
  "validation_priority x hash =
     \<lparr>ovp_order_hash = hash, ovp_is_tob = is_tob x, ovp_is_partial = is_partial x,
      ovp_respend = respend_avoidance_strategy x\<rparr>"

definition is_higher_priority ::
    "order_validation_priority \<Rightarrow> order_validation_priority \<Rightarrow> ordering" where
  "is_higher_priority a b =
     then_with (cmp (ovp_is_tob a) (ovp_is_tob b))
       (then_with (cmp (ovp_is_partial a) (ovp_is_partial b))
          (then_with (cmp (get_ord_for_pending_orders (ovp_respend b))
                          (get_ord_for_pending_orders (ovp_respend a)))
             (cmp (ovp_order_hash b) (ovp_order_hash a))))"

section \<open>Fills\<close>

datatype order_fill_state = Unfilled | CompleteFill | PartialFill u128 | Killed

primrec fill_is_filled :: "order_fill_state \<Rightarrow> bool" where
  "fill_is_filled Unfilled = False"
| "fill_is_filled CompleteFill = True"
| "fill_is_filled (PartialFill q) = True"
| "fill_is_filled Killed = False"

primrec partial_q :: "order_fill_state \<Rightarrow> u128 option" where
  "partial_q Unfilled = None"
| "partial_q CompleteFill = None"
| "partial_q (PartialFill q) = Some q"
| "partial_q Killed = None"

primrec partial_fill :: "order_fill_state \<Rightarrow> u128 \<Rightarrow> order_fill_state" where
  "partial_fill Unfilled q = PartialFill q"
| "partial_fill (PartialFill f) q = PartialFill (f + q)"
| "partial_fill CompleteFill q = CompleteFill"
| "partial_fill Killed q = Killed"

record order_outcome =
  outcome_id :: order_id
  outcome :: order_fill_state

definition outcome_is_filled :: "order_outcome \<Rightarrow> bool" where
  "outcome_is_filled x = fill_is_filled (outcome x)"

definition fill_amount :: "order_outcome \<Rightarrow> u128 \<Rightarrow> u128" where
  "fill_amount x mx =
     (case outcome x of CompleteFill \<Rightarrow> mx | PartialFill p \<Rightarrow> min mx p | _ \<Rightarrow> 0)"

section \<open>The net order of the market maker\<close>

datatype net_amm_order = Buy u128 u128 | Sell u128 u128

primrec new_net_amm_order :: "direction \<Rightarrow> net_amm_order" where
  "new_net_amm_order BuyingT0 = Buy 0 0"
| "new_net_amm_order SellingT0 = Sell 0 0"

fun right_direction :: "net_amm_order \<Rightarrow> direction \<Rightarrow> bool" where
  "right_direction (Sell q c) BuyingT0 = True"
| "right_direction (Buy q c) SellingT0 = True"
| "right_direction n d = False"

primrec add_quantity :: "net_amm_order \<Rightarrow> u128 \<Rightarrow> u128 \<Rightarrow> net_amm_order" where
  "add_quantity (Buy q c) dq dc = Buy (q + dq) (c + dc)"
| "add_quantity (Sell q c) dq dc = Sell (q + dq) (c + dc)"

primrec remove_quantity :: "net_amm_order \<Rightarrow> u128 \<Rightarrow> u128 \<Rightarrow> net_amm_order" where
  "remove_quantity (Buy q c) dq dc = Buy (q - dq) (c - dc)"
| "remove_quantity (Sell q c) dq dc = Sell (q - dq) (c - dc)"

primrec get_directions :: "net_amm_order \<Rightarrow> u128 \<times> u128" where
  "get_directions (Buy amount_out amount_in) = (amount_in, amount_out)"
| "get_directions (Sell amount_in amount_out) = (amount_in, amount_out)"

primrec get_t0_signed :: "net_amm_order \<Rightarrow> int" where
  "get_t0_signed (Buy t0 t1) = uint t0"
| "get_t0_signed (Sell t0 t1) = - uint t0"

definition amount_in :: "net_amm_order \<Rightarrow> u128" where
  "amount_in n = fst (get_directions n)"

definition amount_out :: "net_amm_order \<Rightarrow> u128" where
  "amount_out n = snd (get_directions n)"

primrec to_order_tuple :: "net_amm_order \<Rightarrow> 16 word \<Rightarrow> 16 word \<Rightarrow> 16 word \<times> 16 word \<times> u128 \<times> u128" where
  "to_order_tuple (Buy q c) t0_idx t1_idx = (t1_idx, t0_idx, c, q)"
| "to_order_tuple (Sell q c) t0_idx t1_idx = (t0_idx, t1_idx, q, c)"

primrec net_is_bid :: "net_amm_order \<Rightarrow> bool" where
  "net_is_bid (Buy q c) = True"
| "net_is_bid (Sell q c) = False"

section \<open>Orders with storage data\<close>

record 'o stored_order =
  order :: 'o
  priority_data :: order_priority_data
  invalidates :: "b256 list"
  pool_id :: b256
  currently_invalid :: "user_account_verification_error option"
  stored_is_bid :: bool
  is_valid :: bool
  valid_block :: u64
  order_id :: order_id
  tob_reward :: u256

definition is_currently_valid :: "'o stored_order \<Rightarrow> bool" where
  "is_currently_valid x = (currently_invalid x = None)"

definition fetch_supply_or_demand_contribution_with_fee ::
    "('o \<Rightarrow> pool_order) \<Rightarrow> 'o stored_order \<Rightarrow> ray \<Rightarrow> ray option" where
  "fetch_supply_or_demand_contribution_with_fee view x price =
     (let raw = view (order x) in
      case (stored_is_bid x, exact_in raw) of
        (True, True) \<Rightarrow> do { q \<leftarrow> inverse_quantity price (amount raw) False;
                             Some (ray_sub (ray_from_u128 q) (opd_gas (priority_data x))) }
      | (True, False) \<Rightarrow> Some (ray_from_u128 (amount raw))
      | (False, True) \<Rightarrow> Some (ray_from_u128 (amount raw))
      | (False, False) \<Rightarrow> do { q \<leftarrow> inverse_quantity price (amount raw) True;
                               Some (ray_add (ray_from_u128 q) (opd_gas (priority_data x))) })"

definition fetch_supply_or_demand_contribution_with_fee_partial ::
    "('o \<Rightarrow> pool_order) \<Rightarrow> 'o stored_order \<Rightarrow> ray \<Rightarrow> (ray \<times> ray option) option" where
  "fetch_supply_or_demand_contribution_with_fee_partial view x price =
     (let raw = view (order x); gas = opd_gas (priority_data x) in
      do { p \<leftarrow> limit_price raw;
           lp \<leftarrow> (if stored_is_bid x then inv_ray_round p True else Some p);
           (if lp = price then
              if stored_is_bid x then
                do { h \<leftarrow> inverse_quantity price (amount raw) False;
                     l \<leftarrow> inverse_quantity price (min_amount raw) False;
                     let high = ray_sub (ray_from_u128 h) gas;
                     let low = ray_sub (ray_from_u128 l) gas;
                     Some (high, Some (ray_sub high low)) }
              else
                (let mx = ray_from_u128 (amount raw); mn = ray_from_u128 (min_amount raw)
                 in Some (mx, Some (ray_sub mx mn)))
            else if stored_is_bid x then
              do { h \<leftarrow> inverse_quantity price (amount raw) False;
                   Some (ray_sub (ray_from_u128 h) gas, None) }
            else Some (ray_from_u128 (amount raw), None)) })"

section \<open>The order in which a user's orders are funded\<close>

definition ovp_key :: "order_validation_priority \<Rightarrow> bool \<times> bool \<times> int \<times> int" where
  "ovp_key a = (ovp_is_tob a, ovp_is_partial a,
                - uint (get_ord_for_pending_orders (ovp_respend a)), - uint (ovp_order_hash a))"

lemma is_higher_priority_key: "is_higher_priority a b = cmp (ovp_key a) (ovp_key b)"
  by (simp add: is_higher_priority_def ovp_key_def cmp_pair
      cmp_flip [of "get_ord_for_pending_orders (ovp_respend b)"] cmp_flip [of "ovp_order_hash b"])

text \<open>
  The priority in which orders are funded is a total order: two orders compare equal only if
  they agree in top-of-block status, partiality, nonce and hash; comparing the other way round
  gives the opposite answer; and it is transitive. Top-of-block orders come before all others,
  partial orders before exact ones, and lower nonces before higher ones.
\<close>

theorem is_higher_priority_total_order:
  "(is_higher_priority a b = Equal \<longleftrightarrow> ovp_key a = ovp_key b) \<and>
   (is_higher_priority a b = Greater \<longleftrightarrow> is_higher_priority b a = Less) \<and>
   (is_higher_priority a b = Greater \<and> is_higher_priority b c = Greater
      \<longrightarrow> is_higher_priority a c = Greater) \<and>
   (ovp_is_tob a \<and> \<not> ovp_is_tob b \<longrightarrow> is_higher_priority a b = Greater) \<and>
   (ovp_is_tob a = ovp_is_tob b \<and> ovp_is_partial a \<and> \<not> ovp_is_partial b
      \<longrightarrow> is_higher_priority a b = Greater)"
  by (auto simp: is_higher_priority_key) (auto simp: ovp_key_def)

theorem is_higher_priority_total_order_witness:
  "let tob = \<lparr>ovp_order_hash = 7, ovp_is_tob = True, ovp_is_partial = False, ovp_respend = Block 3\<rparr>;
       part = \<lparr>ovp_order_hash = 9, ovp_is_tob = False, ovp_is_partial = True, ovp_respend = Nonce 5\<rparr>;
       exact = \<lparr>ovp_order_hash = 8, ovp_is_tob = False, ovp_is_partial = False, ovp_respend = Nonce 1\<rparr>
   in is_higher_priority tob part = Greater \<and> is_higher_priority part exact = Greater \<and>
      is_higher_priority tob exact = Greater \<and> is_higher_priority part tob = Less"
proof -
  let ?tob = "\<lparr>ovp_order_hash = 7, ovp_is_tob = True, ovp_is_partial = False, ovp_respend = Block 3\<rparr>"
  let ?part = "\<lparr>ovp_order_hash = 9, ovp_is_tob = False, ovp_is_partial = True, ovp_respend = Nonce 5\<rparr>"
  let ?exact = "\<lparr>ovp_order_hash = 8, ovp_is_tob = False, ovp_is_partial = False, ovp_respend = Nonce 1\<rparr>"
  show ?thesis
    using is_higher_priority_total_order [of ?tob ?part ?exact]
      is_higher_priority_total_order [of ?part ?exact ?tob] by (auto simp: Let_def)
qed

lemma fill_amount_le: "fill_amount x mx \<le> mx"
  by (cases "outcome x") (simp_all add: fill_amount_def)

lemma net_amm_round_trip: "remove_quantity (add_quantity n q c) q c = n"
  by (cases n) simp_all

end
