(* ===== verification/Order_Pools.thy ===== *)
theory Order_Pools
  imports Order_Data
begin

text \<open>
  The sub-pools of \<^verbatim>\<open>order-pool/src\<close>: \<^verbatim>\<open>limit/pending.rs\<close>, \<^verbatim>\<open>limit/parked.rs\<close>,
  \<^verbatim>\<open>limit/standard.rs\<close>, \<^verbatim>\<open>limit/composable.rs\<close>, \<^verbatim>\<open>limit/mod.rs\<close>,
  \<^verbatim>\<open>searcher/pending.rs\<close>, \<^verbatim>\<open>searcher/mod.rs\<close>, \<^verbatim>\<open>finalization_pool.rs\<close> and \<^verbatim>\<open>common/size.rs\<close>.

  Hash maps and B-tree maps are association lists with distinct keys. An operation that returns a
  value and changes the pool returns both. The byte size of an order, which the compiler
  chooses, and the hash of an order are parameters, collected in one record.

  The locale \<open>sub_pool\<close> is the contract a pool of orders keeps with its clients; it is
  interpreted for the pending pool and the parked pool here, and for the limit order pool, the
  searcher pool and the whole storage in the theory of the storage.
\<close>

record pool_env =
  hash_of :: "all_orders \<Rightarrow> b256"
  size_of_all_orders :: usize
  size_of_tob :: usize

section \<open>Size tracking\<close>

record size_tracker =
  st_max :: "usize option"
  st_current :: usize

definition has_space :: "usize \<Rightarrow> size_tracker \<Rightarrow> bool \<times> size_tracker" where
  "has_space sz t =
     (case st_max t of
        Some mx \<Rightarrow> if st_current t + sz \<le> mx then (True, t\<lparr>st_current := st_current t + sz\<rparr>)
                   else (False, t)
      | None \<Rightarrow> (True, t\<lparr>st_current := st_current t + sz\<rparr>))"

definition size_remove_order :: "usize \<Rightarrow> size_tracker \<Rightarrow> size_tracker" where
  "size_remove_order sz t = t\<lparr>st_current := st_current t - sz\<rparr>"

section \<open>Pending pool\<close>

type_synonym limit_order = "all_orders stored_order"
type_synonym searcher_order = "top_of_block_order stored_order"

record 'o pending_pool =
  orders :: "(b256 \<times> 'o stored_order) list"
  bids :: "(order_priority_data \<times> b256) list"
  asks :: "(order_priority_data \<times> b256) list"

definition pending_new :: "'o pending_pool" where
  "pending_new = \<lparr>orders = [], bids = [], asks = []\<rparr>"

definition pending_get_order :: "'o pending_pool \<Rightarrow> b256 \<Rightarrow> 'o stored_order option" where
  "pending_get_order p k = map_of (orders p) k"

definition stored_hash :: "'o stored_order \<Rightarrow> b256" where
  "stored_hash x = oid_hash (order_id x)"

definition pending_add_order :: "'o stored_order \<Rightarrow> 'o pending_pool \<Rightarrow> 'o pending_pool" where
  "pending_add_order x p =
     (let p1 = (if stored_is_bid x
                then p\<lparr>bids := AList.update (priority_data x) (stored_hash x) (bids p)\<rparr>
                else p\<lparr>asks := AList.update (priority_data x) (stored_hash x) (asks p)\<rparr>)
      in p1\<lparr>orders := AList.update (stored_hash x) x (orders p1)\<rparr>)"

text \<open>The two question marks of the code return None with the order already taken out.\<close>

definition pending_remove_order ::
    "b256 \<Rightarrow> 'o pending_pool \<Rightarrow> 'o stored_order option \<times> 'o pending_pool" where
  "pending_remove_order k p =
     (case map_of (orders p) k of
        None \<Rightarrow> (None, p)
      | Some x \<Rightarrow>
          let p1 = p\<lparr>orders := AList.delete k (orders p)\<rparr> in
          if stored_is_bid x then
            (case map_of (bids p1) (priority_data x) of
               None \<Rightarrow> (None, p1)
             | Some _ \<Rightarrow> (Some x, p1\<lparr>bids := AList.delete (priority_data x) (bids p1)\<rparr>))
          else
            (case map_of (asks p1) (priority_data x) of
               None \<Rightarrow> (None, p1)
             | Some _ \<Rightarrow> (Some x, p1\<lparr>asks := AList.delete (priority_data x) (asks p1)\<rparr>)))"

definition pending_get_all_orders :: "'o pending_pool \<Rightarrow> 'o stored_order list" where
  "pending_get_all_orders p = map snd (orders p)"

section \<open>Parked pool\<close>

type_synonym parked_pool = "(b256 \<times> limit_order) list"

definition parked_new :: parked_pool where
  "parked_new = []"

definition parked_get_order :: "parked_pool \<Rightarrow> b256 \<Rightarrow> limit_order option" where
  "parked_get_order p k = map_of p k"

definition parked_remove_order :: "b256 \<Rightarrow> parked_pool \<Rightarrow> limit_order option \<times> parked_pool" where
  "parked_remove_order k p = (map_of p k, AList.delete k p)"

definition parked_new_order :: "pool_env \<Rightarrow> limit_order \<Rightarrow> parked_pool \<Rightarrow> parked_pool" where
  "parked_new_order env x p = AList.update (hash_of env (order x)) x p"

section \<open>Standard limit pool\<close>

datatype limit_pool_error = LimitMaxSize | LimitNoPool b256

record limit_pool =
  pending_orders :: "(b256 \<times> all_orders pending_pool) list"
  parked_orders :: "(b256 \<times> parked_pool) list"

definition limit_pool_new :: "b256 list \<Rightarrow> limit_pool" where
  "limit_pool_new ids =
     \<lparr>pending_orders = fold (\<lambda>k m. AList.update k pending_new m) ids [],
      parked_orders = fold (\<lambda>k m. AList.update k parked_new m) ids []\<rparr>"

primrec find_map :: "('a \<Rightarrow> 'b option) \<Rightarrow> 'a list \<Rightarrow> 'b option" where
  "find_map f [] = None"
| "find_map f (x # xs) = (case f x of None \<Rightarrow> find_map f xs | Some y \<Rightarrow> Some y)"

text \<open>The outer option is the panic of the two unwraps on a parked order's reason.\<close>

definition limit_get_order_status :: "limit_pool \<Rightarrow> b256 \<Rightarrow> order_status option option" where
  "limit_get_order_status l h =
     (case find_map (\<lambda>p. pending_get_order p h) (map snd (pending_orders l)) of
        Some _ \<Rightarrow> Some (Some Pending)
      | None \<Rightarrow>
          (case find_map (\<lambda>p. parked_get_order p h) (map snd (parked_orders l)) of
             None \<Rightarrow> Some None
           | Some x \<Rightarrow> do { e \<leftarrow> currently_invalid x; st \<leftarrow> status_of_error e; Some (Some st) }))"

definition limit_get_order :: "limit_pool \<Rightarrow> b256 \<Rightarrow> b256 \<Rightarrow> limit_order option" where
  "limit_get_order l pool k =
     (case do { p \<leftarrow> map_of (pending_orders l) pool; pending_get_order p k } of
        Some x \<Rightarrow> Some x
      | None \<Rightarrow> do { p \<leftarrow> map_of (parked_orders l) pool; parked_get_order p k })"

definition limit_add_order ::
    "pool_env \<Rightarrow> limit_order \<Rightarrow> limit_pool \<Rightarrow> limit_pool_error + limit_pool" where
  "limit_add_order env x l =
     (if is_currently_valid x then
        (case map_of (pending_orders l) (pool_id x) of
           None \<Rightarrow> Inl (LimitNoPool (pool_id x))
         | Some p \<Rightarrow> Inr (l\<lparr>pending_orders :=
                              AList.update (pool_id x) (pending_add_order x p) (pending_orders l)\<rparr>))
      else
        (case map_of (parked_orders l) (pool_id x) of
           None \<Rightarrow> Inl (LimitNoPool (pool_id x))
         | Some p \<Rightarrow> Inr (l\<lparr>parked_orders :=
                              AList.update (pool_id x) (parked_new_order env x p) (parked_orders l)\<rparr>)))"

definition limit_remove_parked_order ::
    "b256 \<Rightarrow> b256 \<Rightarrow> limit_pool \<Rightarrow> limit_order option \<times> limit_pool" where
  "limit_remove_parked_order pool k l =
     (case map_of (parked_orders l) pool of
        None \<Rightarrow> (None, l)
      | Some p \<Rightarrow>
          let (r, p') = parked_remove_order k p
          in (r, l\<lparr>parked_orders := AList.update pool p' (parked_orders l)\<rparr>))"

definition limit_remove_order ::
    "b256 \<Rightarrow> b256 \<Rightarrow> limit_pool \<Rightarrow> limit_order option \<times> limit_pool" where
  "limit_remove_order pool k l =
     (let (r, l1) = (case map_of (pending_orders l) pool of
                       None \<Rightarrow> (None, l)
                     | Some p \<Rightarrow>
                         let (r, p') = pending_remove_order k p
                         in (r, l\<lparr>pending_orders := AList.update pool p' (pending_orders l)\<rparr>))
      in case r of
           Some x \<Rightarrow> (Some x, l1)
         | None \<Rightarrow> limit_remove_parked_order pool k l1)"

definition limit_get_all_orders :: "limit_pool \<Rightarrow> limit_order list" where
  "limit_get_all_orders l = concat (map (\<lambda>(k, p). pending_get_all_orders p) (pending_orders l))"

text \<open>The unwrap panics when the order cannot be added back.\<close>

definition limit_park_order :: "pool_env \<Rightarrow> order_id \<Rightarrow> limit_pool \<Rightarrow> limit_pool option" where
  "limit_park_order env oid l =
     (case limit_remove_order (oid_pool_id oid) (oid_hash oid) l of
        (None, l1) \<Rightarrow> Some l1
      | (Some x, l1) \<Rightarrow>
          (case limit_add_order env
                  (x\<lparr>currently_invalid := Some (UnknownAccountError ''parked by other transaction'')\<rparr>) l1 of
             Inl e \<Rightarrow> None
           | Inr l2 \<Rightarrow> Some l2))"

text \<open>
  The disjunction of the code short-circuits: the parked pool is only inserted when the pool id
  already had a pending pool.
\<close>

definition limit_new_pool :: "b256 \<Rightarrow> limit_pool \<Rightarrow> limit_pool option" where
  "limit_new_pool k l =
     (let l1 = l\<lparr>pending_orders := AList.update k pending_new (pending_orders l)\<rparr> in
      if map_of (pending_orders l) k = None then Some l1
      else
        let l2 = l1\<lparr>parked_orders := AList.update k parked_new (parked_orders l1)\<rparr> in
        if map_of (parked_orders l) k = None then Some l2 else None)"

definition limit_remove_invalid_order :: "b256 \<Rightarrow> limit_pool \<Rightarrow> limit_pool" where
  "limit_remove_invalid_order h l =
     \<lparr>pending_orders = map (\<lambda>(k, p). (k, snd (pending_remove_order h p))) (pending_orders l),
      parked_orders = map (\<lambda>(k, p). (k, snd (parked_remove_order h p))) (parked_orders l)\<rparr>"

section \<open>Composable limit pool\<close>

type_synonym composable_pool = "(b256 \<times> all_orders pending_pool) list"

definition composable_new :: "b256 list \<Rightarrow> composable_pool" where
  "composable_new ids = fold (\<lambda>k m. AList.update k pending_new m) ids []"

definition composable_get_order :: "composable_pool \<Rightarrow> b256 \<Rightarrow> b256 \<Rightarrow> limit_order option" where
  "composable_get_order m pool k = do { p \<leftarrow> map_of m pool; pending_get_order p k }"

definition composable_add_order ::
    "limit_order \<Rightarrow> composable_pool \<Rightarrow> limit_pool_error + composable_pool" where
  "composable_add_order x m =
     (case map_of m (pool_id x) of
        None \<Rightarrow> Inl (LimitNoPool (pool_id x))
      | Some p \<Rightarrow> Inr (AList.update (pool_id x) (pending_add_order x p) m))"

definition composable_remove_order ::
    "b256 \<Rightarrow> b256 \<Rightarrow> composable_pool \<Rightarrow> limit_order option \<times> composable_pool" where
  "composable_remove_order pool k m =
     (case map_of m pool of
        None \<Rightarrow> (None, m)
      | Some p \<Rightarrow> let (r, p') = pending_remove_order k p in (r, AList.update pool p' m))"

definition composable_new_pool :: "b256 \<Rightarrow> composable_pool \<Rightarrow> composable_pool option" where
  "composable_new_pool k m =
     (if map_of m k = None then Some (AList.update k pending_new m) else None)"

definition composable_remove_invalid_order :: "b256 \<Rightarrow> composable_pool \<Rightarrow> composable_pool" where
  "composable_remove_invalid_order h m = map (\<lambda>(k, p). (k, snd (pending_remove_order h p))) m"

section \<open>Limit order pool\<close>

record limit_order_pool =
  limit_orders :: limit_pool
  composable_orders :: composable_pool
  lop_size :: size_tracker

definition lop_new :: "b256 list \<Rightarrow> usize option \<Rightarrow> limit_order_pool" where
  "lop_new ids max_size =
     \<lparr>limit_orders = limit_pool_new ids, composable_orders = composable_new ids,
      lop_size = \<lparr>st_max = max_size, st_current = 0\<rparr>\<rparr>"

definition lop_get_order :: "limit_order_pool \<Rightarrow> order_id \<Rightarrow> limit_order option" where
  "lop_get_order l oid =
     (case limit_get_order (limit_orders l) (oid_pool_id oid) (oid_hash oid) of
        Some x \<Rightarrow> Some x
      | None \<Rightarrow> composable_get_order (composable_orders l) (oid_pool_id oid) (oid_hash oid))"

definition lop_remove_pool :: "b256 \<Rightarrow> limit_order_pool \<Rightarrow> limit_order_pool" where
  "lop_remove_pool k l =
     l\<lparr>composable_orders := AList.delete k (composable_orders l),
       limit_orders := (limit_orders l)
         \<lparr>parked_orders := AList.delete k (parked_orders (limit_orders l)),
          pending_orders := AList.delete k (pending_orders (limit_orders l))\<rparr>\<rparr>"

definition lop_get_order_status :: "limit_order_pool \<Rightarrow> b256 \<Rightarrow> order_status option option" where
  "lop_get_order_status l h = limit_get_order_status (limit_orders l) h"

text \<open>The size is charged before the pool is looked up, and stays charged when that fails.\<close>

definition lop_add_composable_order ::
    "pool_env \<Rightarrow> limit_order \<Rightarrow> limit_order_pool \<Rightarrow> limit_pool_error option \<times> limit_order_pool" where
  "lop_add_composable_order env x l =
     (let (ok, sz) = has_space (size_of_all_orders env) (lop_size l) in
      if \<not> ok then (Some LimitMaxSize, l\<lparr>lop_size := sz\<rparr>)
      else (case composable_add_order x (composable_orders l) of
              Inl e \<Rightarrow> (Some e, l\<lparr>lop_size := sz\<rparr>)
            | Inr m \<Rightarrow> (None, l\<lparr>lop_size := sz, composable_orders := m\<rparr>)))"

definition lop_add_vanilla_order ::
    "pool_env \<Rightarrow> limit_order \<Rightarrow> limit_order_pool \<Rightarrow> limit_pool_error option \<times> limit_order_pool" where
  "lop_add_vanilla_order env x l =
     (let (ok, sz) = has_space (size_of_all_orders env) (lop_size l) in
      if \<not> ok then (Some LimitMaxSize, l\<lparr>lop_size := sz\<rparr>)
      else (case limit_add_order env x (limit_orders l) of
              Inl e \<Rightarrow> (Some e, l\<lparr>lop_size := sz\<rparr>)
            | Inr m \<Rightarrow> (None, l\<lparr>lop_size := sz, limit_orders := m\<rparr>)))"

definition lop_remove_order :: "order_id \<Rightarrow> limit_order_pool \<Rightarrow> limit_order option \<times> limit_order_pool" where
  "lop_remove_order oid l =
     (case limit_remove_order (oid_pool_id oid) (oid_hash oid) (limit_orders l) of
        (Some x, m) \<Rightarrow> (Some x, l\<lparr>limit_orders := m\<rparr>)
      | (None, m) \<Rightarrow>
          let (r, c) = composable_remove_order (oid_pool_id oid) (oid_hash oid) (composable_orders l)
          in (r, l\<lparr>limit_orders := m, composable_orders := c\<rparr>))"

definition lop_remove_parked_order ::
    "order_id \<Rightarrow> limit_order_pool \<Rightarrow> limit_order option \<times> limit_order_pool" where
  "lop_remove_parked_order oid l =
     (case limit_remove_parked_order (oid_pool_id oid) (oid_hash oid) (limit_orders l) of
        (Some x, m) \<Rightarrow> (Some x, l\<lparr>limit_orders := m\<rparr>)
      | (None, m) \<Rightarrow>
          let (r, c) = composable_remove_order (oid_pool_id oid) (oid_hash oid) (composable_orders l)
          in (r, l\<lparr>limit_orders := m, composable_orders := c\<rparr>))"

definition lop_get_all_orders :: "limit_order_pool \<Rightarrow> limit_order list" where
  "lop_get_all_orders l = limit_get_all_orders (limit_orders l)"

definition lop_get_all_orders_from_pool :: "limit_order_pool \<Rightarrow> b256 \<Rightarrow> all_orders list" where
  "lop_get_all_orders_from_pool l k =
     (case map_of (pending_orders (limit_orders l)) k of
        None \<Rightarrow> [] | Some p \<Rightarrow> map order (pending_get_all_orders p))"

definition lop_park_order :: "pool_env \<Rightarrow> order_id \<Rightarrow> limit_order_pool \<Rightarrow> limit_order_pool option" where
  "lop_park_order env oid l =
     do { m \<leftarrow> limit_park_order env oid (limit_orders l); Some (l\<lparr>limit_orders := m\<rparr>) }"

definition lop_new_pool :: "b256 \<Rightarrow> limit_order_pool \<Rightarrow> limit_order_pool option" where
  "lop_new_pool k l =
     do { m \<leftarrow> limit_new_pool k (limit_orders l);
          c \<leftarrow> composable_new_pool k (composable_orders l);
          Some (l\<lparr>limit_orders := m, composable_orders := c\<rparr>) }"

definition lop_remove_invalid_order :: "b256 \<Rightarrow> limit_order_pool \<Rightarrow> limit_order_pool" where
  "lop_remove_invalid_order h l =
     l\<lparr>composable_orders := composable_remove_invalid_order h (composable_orders l),
       limit_orders := limit_remove_invalid_order h (limit_orders l)\<rparr>"

section \<open>Searcher pool\<close>

datatype searcher_pool_error = SearcherMaxSize | SearcherNoPool b256

record searcher_pool =
  searcher_orders :: "(b256 \<times> top_of_block_order pending_pool) list"
  sp_size :: size_tracker

definition searcher_new :: "b256 list \<Rightarrow> usize option \<Rightarrow> searcher_pool" where
  "searcher_new ids max_size =
     \<lparr>searcher_orders = fold (\<lambda>k m. AList.update k pending_new m) ids [],
      sp_size = \<lparr>st_max = max_size, st_current = 0\<rparr>\<rparr>"

definition searcher_get_all_orders_from_pool :: "searcher_pool \<Rightarrow> b256 \<Rightarrow> all_orders list" where
  "searcher_get_all_orders_from_pool sp k =
     (case map_of (searcher_orders sp) k of
        None \<Rightarrow> [] | Some p \<Rightarrow> map (\<lambda>x. TOB (order x)) (pending_get_all_orders p))"

definition searcher_has_order :: "searcher_pool \<Rightarrow> b256 \<Rightarrow> bool" where
  "searcher_has_order sp h =
     (find_map (\<lambda>p. pending_get_order p h) (map snd (searcher_orders sp)) \<noteq> None)"

definition searcher_get_order :: "searcher_pool \<Rightarrow> b256 \<Rightarrow> b256 \<Rightarrow> searcher_order option" where
  "searcher_get_order sp pool k = do { p \<leftarrow> map_of (searcher_orders sp) pool; pending_get_order p k }"

definition add_searcher_order ::
    "pool_env \<Rightarrow> searcher_order \<Rightarrow> searcher_pool \<Rightarrow> searcher_pool_error option \<times> searcher_pool" where
  "add_searcher_order env x sp =
     (let (ok, sz) = has_space (size_of_tob env) (sp_size sp) in
      if \<not> ok then (Some SearcherMaxSize, sp\<lparr>sp_size := sz\<rparr>)
      else (case map_of (searcher_orders sp) (pool_id x) of
              None \<Rightarrow> (Some (SearcherNoPool (pool_id x)), sp\<lparr>sp_size := sz\<rparr>)
            | Some p \<Rightarrow> (None, sp\<lparr>sp_size := sz,
                  searcher_orders := AList.update (pool_id x) (pending_add_order x p) (searcher_orders sp)\<rparr>)))"

definition searcher_remove_order ::
    "order_id \<Rightarrow> searcher_pool \<Rightarrow> searcher_order option \<times> searcher_pool" where
  "searcher_remove_order oid sp =
     (case map_of (searcher_orders sp) (oid_pool_id oid) of
        None \<Rightarrow> (None, sp)
      | Some p \<Rightarrow>
          let (r, p') = pending_remove_order (oid_hash oid) p
          in (r, sp\<lparr>searcher_orders := AList.update (oid_pool_id oid) p' (searcher_orders sp)\<rparr>))"

definition get_all_pool_ids :: "searcher_pool \<Rightarrow> b256 list" where
  "get_all_pool_ids sp = map fst (searcher_orders sp)"

definition get_orders_for_pool :: "searcher_pool \<Rightarrow> b256 \<Rightarrow> searcher_order list option" where
  "get_orders_for_pool sp k = map_option pending_get_all_orders (map_of (searcher_orders sp) k)"

definition searcher_get_all_orders :: "searcher_pool \<Rightarrow> searcher_order list" where
  "searcher_get_all_orders sp = concat (map (\<lambda>(k, p). pending_get_all_orders p) (searcher_orders sp))"

definition searcher_new_pool :: "b256 \<Rightarrow> searcher_pool \<Rightarrow> searcher_pool option" where
  "searcher_new_pool k sp =
     (if map_of (searcher_orders sp) k = None
      then Some (sp\<lparr>searcher_orders := AList.update k pending_new (searcher_orders sp)\<rparr>) else None)"

definition searcher_remove_pool :: "b256 \<Rightarrow> searcher_pool \<Rightarrow> searcher_pool" where
  "searcher_remove_pool k sp = sp\<lparr>searcher_orders := AList.delete k (searcher_orders sp)\<rparr>"

text \<open>Every pool that held the order gives back one byte of the tracked size.\<close>

definition searcher_remove_invalid_order :: "b256 \<Rightarrow> searcher_pool \<Rightarrow> searcher_pool" where
  "searcher_remove_invalid_order h sp =
     (let removed = filter (\<lambda>(k, p). fst (pending_remove_order h p) \<noteq> None) (searcher_orders sp) in
      \<lparr>searcher_orders = map (\<lambda>(k, p). (k, snd (pending_remove_order h p))) (searcher_orders sp),
       sp_size = fold (\<lambda>_. size_remove_order 1) removed (sp_size sp)\<rparr>)"

section \<open>Finalization pool\<close>

record finalization_pool =
  id_to_orders :: "(b256 \<times> limit_order) list"
  block_to_ids :: "(u64 \<times> b256 list) list"

definition finalization_new :: finalization_pool where
  "finalization_new = \<lparr>id_to_orders = [], block_to_ids = []\<rparr>"

text \<open>The assertion panics when the block already has orders.\<close>

definition finalization_new_orders ::
    "pool_env \<Rightarrow> u64 \<Rightarrow> limit_order list \<Rightarrow> finalization_pool \<Rightarrow> finalization_pool option" where
  "finalization_new_orders env block xs f =
     (if map_of (block_to_ids f) block \<noteq> None then None
      else Some \<lparr>id_to_orders = fold (\<lambda>x m. AList.update (hash_of env (order x)) x m) xs (id_to_orders f),
                 block_to_ids = AList.update block (map (\<lambda>x. hash_of env (order x)) xs) (block_to_ids f)\<rparr>)"

definition finalization_has_order :: "finalization_pool \<Rightarrow> b256 \<Rightarrow> bool" where
  "finalization_has_order f h = (map_of (id_to_orders f) h \<noteq> None)"

fun take_out :: "b256 list \<Rightarrow> (b256 \<times> limit_order) list \<Rightarrow> limit_order list \<times> (b256 \<times> limit_order) list" where
  "take_out [] m = ([], m)"
| "take_out (h # hs) m =
     (let (xs, m') = take_out hs (AList.delete h m)
      in (case map_of m h of None \<Rightarrow> xs | Some x \<Rightarrow> x # xs, m'))"

definition finalization_reorg ::
    "b256 list \<Rightarrow> finalization_pool \<Rightarrow> limit_order list \<times> finalization_pool" where
  "finalization_reorg hs f =
     (let (xs, m) = take_out hs (id_to_orders f) in (xs, f\<lparr>id_to_orders := m\<rparr>))"

definition finalization_finalized ::
    "u64 \<Rightarrow> finalization_pool \<Rightarrow> limit_order list \<times> finalization_pool" where
  "finalization_finalized block f =
     (case map_of (block_to_ids f) block of
        None \<Rightarrow> ([], f)
      | Some ids \<Rightarrow>
          let (xs, m) = take_out ids (id_to_orders f)
          in (xs, \<lparr>id_to_orders = m, block_to_ids = AList.delete block (block_to_ids f)\<rparr>))"

section \<open>The contract of a pool of orders\<close>

datatype ('k, 'v) pool_op = AddOp 'v | RemoveOp 'k

fun pool_run :: "('v \<Rightarrow> 'p \<Rightarrow> 'p) \<Rightarrow> ('k \<Rightarrow> 'p \<Rightarrow> 'v option \<times> 'p) \<Rightarrow> ('k, 'v) pool_op list \<Rightarrow> 'p
    \<Rightarrow> 'v option list \<times> 'p" where
  "pool_run add remove [] p = ([], p)"
| "pool_run add remove (AddOp x # ops) p = pool_run add remove ops (add x p)"
| "pool_run add remove (RemoveOp k # ops) p =
     (let (r, p') = remove k p; (rs, p'') = pool_run add remove ops p' in (r # rs, p''))"

text \<open>The specification: the same operations on a finite map from keys to orders.\<close>

definition map_remove :: "'k \<Rightarrow> ('k \<rightharpoonup> 'v) \<Rightarrow> 'v option \<times> ('k \<rightharpoonup> 'v)" where
  "map_remove k m = (m k, m(k := None))"

definition map_add_keyed :: "('v \<Rightarrow> 'k) \<Rightarrow> 'v \<Rightarrow> ('k \<rightharpoonup> 'v) \<Rightarrow> ('k \<rightharpoonup> 'v)" where
  "map_add_keyed key x m = m(key x \<mapsto> x)"

text \<open>Every order is fresh for the pool it is added to.\<close>

fun fresh_run :: "('v \<Rightarrow> 'p \<Rightarrow> bool) \<Rightarrow> ('v \<Rightarrow> 'p \<Rightarrow> 'p) \<Rightarrow> ('k \<Rightarrow> 'p \<Rightarrow> 'v option \<times> 'p) \<Rightarrow>
    ('k, 'v) pool_op list \<Rightarrow> 'p \<Rightarrow> bool" where
  "fresh_run fresh add remove [] p = True"
| "fresh_run fresh add remove (AddOp x # ops) p =
     (fresh x p \<and> fresh_run fresh add remove ops (add x p))"
| "fresh_run fresh add remove (RemoveOp k # ops) p =
     fresh_run fresh add remove ops (snd (remove k p))"

locale sub_pool =
  fixes inv :: "'p \<Rightarrow> bool"
    and fresh :: "'v \<Rightarrow> 'p \<Rightarrow> bool"
    and key :: "'v \<Rightarrow> 'k"
    and get :: "'p \<Rightarrow> 'k \<Rightarrow> 'v option"
    and add :: "'v \<Rightarrow> 'p \<Rightarrow> 'p"
    and remove :: "'k \<Rightarrow> 'p \<Rightarrow> 'v option \<times> 'p"
  assumes inv_add: "inv p \<Longrightarrow> fresh x p \<Longrightarrow> inv (add x p)"
    and inv_remove: "inv p \<Longrightarrow> inv (snd (remove k p))"
    and get_add: "inv p \<Longrightarrow> fresh x p \<Longrightarrow> get (add x p) = (get p)(key x \<mapsto> x)"
    and get_remove: "inv p \<Longrightarrow> get (snd (remove k p)) = (get p)(k := None)"
    and remove_result: "inv p \<Longrightarrow> fst (remove k p) = get p k"
begin

lemma run_inv: "inv p \<Longrightarrow> fresh_run fresh add remove ops p \<Longrightarrow> inv (snd (pool_run add remove ops p))"
proof (induction ops arbitrary: p)
  case (Cons oper ops)
  then show ?case
  proof (cases oper)
    case (RemoveOp k)
    obtain r p' where rp: "remove k p = (r, p')" by fastforce
    have "inv (snd (pool_run add remove ops p'))"
      using inv_remove [OF Cons.prems(1), of k] Cons.IH [of p'] Cons.prems(2) by (simp add: RemoveOp rp)
    then show ?thesis by (simp add: RemoveOp rp split_beta)
  qed (simp add: inv_add)
qed simp

lemma run_refines_map:
  "inv p \<Longrightarrow> fresh_run fresh add remove ops p \<Longrightarrow>
   pool_run (map_add_keyed key) map_remove ops (get p) =
     (let (rs, p') = pool_run add remove ops p in (rs, get p'))"
proof (induction ops arbitrary: p)
  case (Cons oper ops)
  show ?case
  proof (cases oper)
    case (AddOp x)
    with Cons.prems have fr: "fresh x p" "fresh_run fresh add remove ops (add x p)" by auto
    with Cons.IH [of "add x p"] Cons.prems(1) show ?thesis
      by (simp add: AddOp map_add_keyed_def get_add inv_add)
  next
    case (RemoveOp k)
    obtain r p' where rp: "remove k p = (r, p')" by fastforce
    have r: "r = get p k" "get p' = (get p)(k := None)" "inv p'"
      using remove_result [OF Cons.prems(1), of k] get_remove [OF Cons.prems(1), of k]
        inv_remove [OF Cons.prems(1), of k] rp by simp_all
    have "pool_run (map_add_keyed key) map_remove ops ((get p)(k := None)) =
        (let (rs, p'') = pool_run add remove ops p' in (rs, get p''))"
      using Cons.IH [of p'] Cons.prems(2) by (simp add: RemoveOp rp r flip: r(2))
    then show ?thesis by (simp add: RemoveOp map_remove_def [of k] rp r split: prod.splits)
  qed
qed simp

end

definition side_of :: "'o stored_order \<Rightarrow> 'o pending_pool \<Rightarrow> (order_priority_data \<times> b256) list" where
  "side_of x p = (if stored_is_bid x then bids p else asks p)"

definition pending_fresh :: "'o stored_order \<Rightarrow> 'o pending_pool \<Rightarrow> bool" where
  "pending_fresh x p \<longleftrightarrow>
     map_of (orders p) (stored_hash x) = None \<and> map_of (side_of x p) (priority_data x) = None"

text \<open>
  Every order sits under its hash and the index of its side has an entry for its priority that
  leads back to it.
\<close>

definition pending_indexed :: "'o pending_pool \<Rightarrow> bool" where
  "pending_indexed p \<longleftrightarrow>
     (\<forall>h x. map_of (orders p) h = Some x \<longrightarrow>
        stored_hash x = h \<and> map_of (side_of x p) (priority_data x) = Some h)"

definition pending_inv :: "'o pending_pool \<Rightarrow> bool" where
  "pending_inv p \<longleftrightarrow> distinct (map fst (orders p)) \<and> pending_indexed p"

lemma pending_get_add:
  "pending_get_order (pending_add_order x p) = (pending_get_order p)(stored_hash x \<mapsto> x)"
  by (auto simp: pending_get_order_def pending_add_order_def Let_def update_conv')

lemma pending_get_remove:
  "pending_get_order (snd (pending_remove_order k p)) = (pending_get_order p)(k := None)"
  by (auto simp: pending_get_order_def pending_remove_order_def Let_def delete_conv'
      split: option.splits)

lemma pending_indexed_add:
  "pending_indexed p \<Longrightarrow> pending_fresh x p \<Longrightarrow> pending_indexed (pending_add_order x p)"
  by (fastforce simp: pending_indexed_def pending_fresh_def pending_add_order_def side_of_def Let_def
      update_conv' split: if_splits)

lemma pending_inv_add: "pending_inv p \<Longrightarrow> pending_fresh x p \<Longrightarrow> pending_inv (pending_add_order x p)"
  by (simp add: pending_inv_def pending_indexed_add)
    (simp add: pending_add_order_def Let_def distinct_update)

lemma pending_indexedD:
  "pending_indexed p \<Longrightarrow> map_of (orders p) h = Some x \<Longrightarrow>
   stored_hash x = h \<and> map_of (side_of x p) (priority_data x) = Some h"
  by (simp add: pending_indexed_def)

text \<open>Taking an order out deletes it and the entry of its priority on its side.\<close>

lemma pending_remove_eq:
  assumes ix: "pending_indexed p" and x: "map_of (orders p) k = Some x"
  shows "pending_remove_order k p =
    (Some x, if stored_is_bid x
             then p\<lparr>orders := AList.delete k (orders p), bids := AList.delete (priority_data x) (bids p)\<rparr>
             else p\<lparr>orders := AList.delete k (orders p), asks := AList.delete (priority_data x) (asks p)\<rparr>)"
  using pending_indexedD [OF ix x] x
  by (cases "stored_is_bid x") (simp_all add: pending_remove_order_def side_of_def Let_def)

lemma pending_side_remove:
  assumes ix: "pending_indexed p" and x: "map_of (orders p) k = Some x"
    and y: "map_of (orders p) h = Some y" and "h \<noteq> k"
  shows "map_of (side_of y (snd (pending_remove_order k p))) (priority_data y) = Some h"
proof -
  have "stored_is_bid y = stored_is_bid x \<Longrightarrow> priority_data y \<noteq> priority_data x"
    using pending_indexedD [OF ix x] pending_indexedD [OF ix y] \<open>h \<noteq> k\<close> by (auto simp: side_of_def)
  then show ?thesis
    using pending_indexedD [OF ix y]
    by (cases "stored_is_bid x"; cases "stored_is_bid y")
      (simp_all add: pending_remove_eq [OF ix x] side_of_def delete_conv')
qed

lemma pending_indexed_remove:
  assumes ix: "pending_indexed p"
  shows "pending_indexed (snd (pending_remove_order k p))"
proof (cases "map_of (orders p) k")
  case None
  then show ?thesis using ix by (simp add: pending_remove_order_def)
next
  case (Some x)
  have ord: "map_of (orders (snd (pending_remove_order k p))) = (map_of (orders p))(k := None)"
    using pending_get_remove [of k p] by (simp add: pending_get_order_def fun_eq_iff)
  show ?thesis
    unfolding pending_indexed_def
    using pending_side_remove [OF ix Some] pending_indexedD [OF ix] by (simp add: ord)
qed

lemma pending_inv_remove: "pending_inv p \<Longrightarrow> pending_inv (snd (pending_remove_order k p))"
  by (simp add: pending_inv_def pending_indexed_remove)
    (simp add: pending_remove_order_def Let_def distinct_delete split: option.splits)

lemma pending_remove_result:
  assumes "pending_inv p"
  shows "fst (pending_remove_order k p) = pending_get_order p k"
proof (cases "map_of (orders p) k")
  case None
  then show ?thesis by (simp add: pending_get_order_def pending_remove_order_def)
next
  case (Some x)
  have "pending_indexed p" using assms by (simp add: pending_inv_def)
  from pending_remove_eq [OF this Some] Some show ?thesis by (simp add: pending_get_order_def)
qed

interpretation pending: sub_pool pending_inv pending_fresh stored_hash pending_get_order
    pending_add_order pending_remove_order
  by unfold_locales (rule pending_inv_add pending_inv_remove pending_get_add pending_get_remove
      pending_remove_result; assumption?)+

interpretation parked: sub_pool "\<lambda>_. True" "\<lambda>_ _. True" "\<lambda>x. hash_of env (order x)" parked_get_order
    "parked_new_order env" parked_remove_order for env
  by unfold_locales
    (auto simp: parked_get_order_def parked_new_order_def parked_remove_order_def
      update_conv' delete_conv')

lemma pending_inv_new: "pending_inv pending_new"
  by (simp add: pending_inv_def pending_indexed_def pending_new_def)

lemma pending_get_new: "pending_get_order pending_new = Map.empty"
  by (simp add: pending_get_order_def pending_new_def fun_eq_iff)

text \<open>
  C16. As long as no order enters a pending pool that already has its hash, or an order of its side
  with the same priority data, the pool behaves like a map from hashes to orders: after any
  sequence of insertions and removals from the empty pool every lookup agrees with the map, and
  each removal returned what the map held.
\<close>
theorem pending_pool_refines_map:
  assumes "fresh_run pending_fresh pending_add_order pending_remove_order ops pending_new"
  shows "pool_run pending_add_order pending_remove_order ops pending_new = (rs, p) \<Longrightarrow>
    pool_run (map_add_keyed stored_hash) map_remove ops Map.empty = (rs, pending_get_order p)"
  using pending.run_refines_map [OF pending_inv_new assms] by (simp add: pending_get_new)

text \<open>Inputs of the examples: bids of a top-of-block and of a standing order in pool 7.\<close>

definition sample_meta :: order_meta where
  "sample_meta = \<lparr>is_ecdsa = True, meta_from = 1, signature = []\<rparr>"

definition sample_tob :: top_of_block_order where
  "sample_tob = \<lparr>tob_quantity_in = 5, tob_quantity_out = 4, tob_max_gas_asset0 = 0, tob_use_internal = False,
     tob_asset_in = 2, tob_asset_out = 3, tob_recipient = 1, tob_valid_for_block = 3, tob_meta = sample_meta\<rparr>"

definition sample_standing :: "u64 \<Rightarrow> all_orders" where
  "sample_standing n = ExactStanding \<lparr>es_ref_id = 0, es_exact_in = True, es_amount = 5,
     es_max_extra_fee_asset0 = 0, es_min_price = 1, es_use_internal = False, es_asset_in = 3,
     es_asset_out = 2, es_recipient = 1, es_hook_data = [], es_nonce = n, es_deadline = 100,
     es_meta = sample_meta\<rparr>"

definition sample_id :: "order_location \<Rightarrow> b256 \<Rightarrow> order_id" where
  "sample_id loc h = \<lparr>oid_address = 1, oid_pool_id = 7, oid_hash = h, oid_reuse_avoidance = Nonce 0,
     oid_deadline = None, oid_flash_block = None, oid_location = loc\<rparr>"

definition sample_order :: "'o \<Rightarrow> order_location \<Rightarrow> b256 \<Rightarrow> u256 \<Rightarrow> 'o stored_order" where
  "sample_order x loc h price = \<lparr>order = x, priority_data = OrderPriorityData price 1 0 0,
     invalidates = [], pool_id = 7, currently_invalid = None, stored_is_bid = True, is_valid = True,
     valid_block = 3, order_id = sample_id loc h, tob_reward = 0\<rparr>"

lemmas pending_defs = pending_new_def pending_add_order_def pending_remove_order_def
  pending_get_order_def pending_fresh_def side_of_def stored_hash_def sample_order_def sample_id_def

theorem pending_pool_refines_map_witness:
  "\<exists>rs p. fresh_run pending_fresh pending_add_order pending_remove_order
       [AddOp (sample_order sample_tob Searcher 10 5), AddOp (sample_order sample_tob Searcher 11 6), RemoveOp 10]
       pending_new \<and>
     pool_run (map_add_keyed stored_hash) map_remove
       [AddOp (sample_order sample_tob Searcher 10 5), AddOp (sample_order sample_tob Searcher 11 6), RemoveOp 10]
       Map.empty = (rs, pending_get_order p) \<and>
     rs = [Some (sample_order sample_tob Searcher 10 5)]"
proof -
  let ?ops = "[AddOp (sample_order sample_tob Searcher 10 5), AddOp (sample_order sample_tob Searcher 11 6), RemoveOp 10]"
  have fr: "fresh_run pending_fresh pending_add_order pending_remove_order ?ops pending_new"
    by (simp add: pending_defs)
  obtain rs p where run: "pool_run pending_add_order pending_remove_order ?ops pending_new = (rs, p)"
    by fastforce
  have "rs = [Some (sample_order sample_tob Searcher 10 5)]"
    using run by (simp add: pending_defs)
  with pending_pool_refines_map [OF fr run] fr show ?thesis by blast
qed

text \<open>
  C37. Without that condition an order is lost: two orders of one side with equal priority data share
  one index entry, so that after the first is taken out, taking out the second reports that it was
  not there, although a lookup found it, and drops it.
\<close>
theorem equal_priority_loses_order:
  assumes "stored_is_bid x = stored_is_bid y" "priority_data x = priority_data y"
    and "stored_hash x \<noteq> stored_hash y"
  shows "let q = snd (pending_remove_order (stored_hash x) (pending_add_order y (pending_add_order x p))) in
    pending_get_order q (stored_hash y) = Some y \<and>
    fst (pending_remove_order (stored_hash y) q) = None \<and>
    pending_get_order (snd (pending_remove_order (stored_hash y) q)) (stored_hash y) = None"
proof -
  define q where q_def: "q = snd (pending_remove_order (stored_hash x) (pending_add_order y (pending_add_order x p)))"
  have get: "pending_get_order q (stored_hash y) = Some y"
    using assms(3) by (simp add: q_def pending_get_remove pending_get_add)
  have ord: "map_of (orders (pending_add_order y (pending_add_order x p))) (stored_hash x) = Some x"
    using assms(3) pending_get_add [of y "pending_add_order x p"] pending_get_add [of x p]
    by (simp add: pending_get_order_def fun_eq_iff)
  have side: "map_of (side_of y q) (priority_data y) = None"
    using assms(1,2) ord unfolding q_def
    by (cases "stored_is_bid y")
      (simp_all add: pending_remove_order_def pending_add_order_def side_of_def Let_def
        delete_conv' update_conv' split: option.splits)
  have "fst (pending_remove_order (stored_hash y) q) = None"
    using get side
    by (cases "stored_is_bid y") (simp_all add: pending_remove_order_def pending_get_order_def side_of_def Let_def)
  with get show ?thesis by (simp add: Let_def pending_get_remove flip: q_def)
qed

theorem equal_priority_loses_order_witness:
  "fst (pending_remove_order 11 (snd (pending_remove_order 10
     (pending_add_order (sample_order sample_tob Searcher 11 5)
        (pending_add_order (sample_order sample_tob Searcher 10 5) pending_new))))) = None"
  using equal_priority_loses_order [of "sample_order sample_tob Searcher 10 5" "sample_order sample_tob Searcher 11 5"
      pending_new]
  by (simp add: stored_hash_def sample_order_def sample_id_def Let_def)

section \<open>A pool id registered at run time\<close>

text \<open>
  C38. A pool registered while the node runs has no parked pool: the first valid order added to it
  makes parking that order panic.
\<close>
theorem new_pool_cannot_park:
  assumes "map_of (pending_orders l) (pool_id x) = None" "map_of (parked_orders l) (pool_id x) = None"
    and "is_currently_valid x" "oid_pool_id oid = pool_id x" "oid_hash oid = stored_hash x"
  shows "\<exists>l1 l2. limit_new_pool (pool_id x) l = Some l1 \<and> limit_add_order env x l1 = Inr l2 \<and>
    limit_get_order l2 (pool_id x) (stored_hash x) = Some x \<and> limit_park_order env oid l2 = None"
proof -
  obtain p' where rem: "pending_remove_order (stored_hash x) (pending_add_order x pending_new) = (Some x, p')"
    using pending_remove_result [OF pending_inv_add [OF pending_inv_new, of x], of "stored_hash x"]
    by (cases "pending_remove_order (stored_hash x) (pending_add_order x pending_new)")
      (simp add: pending_fresh_def pending_new_def side_of_def pending_get_add)
  let ?l1 = "l\<lparr>pending_orders := AList.update (pool_id x) pending_new (pending_orders l)\<rparr>"
  let ?l2 = "?l1\<lparr>pending_orders := AList.update (pool_id x) (pending_add_order x pending_new) (pending_orders ?l1)\<rparr>"
  have "limit_new_pool (pool_id x) l = Some ?l1"
    using assms(1) by (simp add: limit_new_pool_def)
  moreover have "limit_add_order env x ?l1 = Inr ?l2"
    using assms(3) by (simp add: limit_add_order_def update_conv')
  moreover have "limit_get_order ?l2 (pool_id x) (stored_hash x) = Some x"
    by (simp add: limit_get_order_def update_conv' pending_get_add)
  moreover have "limit_park_order env oid ?l2 = None"
    using assms(2,4,5) rem
    by (simp add: limit_park_order_def limit_remove_order_def update_conv' limit_add_order_def
        is_currently_valid_def)
  ultimately show ?thesis by blast
qed

definition sample_env :: pool_env where
  "sample_env = \<lparr>hash_of = (\<lambda>x. case x of ExactStanding y \<Rightarrow> ucast (es_nonce y) | _ \<Rightarrow> 0),
     size_of_all_orders = 400, size_of_tob = 300\<rparr>"

theorem new_pool_cannot_park_witness:
  "\<exists>l1 l2. limit_new_pool 7 (limit_pool_new [1, 2]) = Some l1 \<and>
     limit_add_order sample_env (sample_order (sample_standing 10) Limit 10 5) l1 = Inr l2 \<and>
     limit_park_order sample_env (sample_id Limit 10) l2 = None"
  using new_pool_cannot_park [of "limit_pool_new [1, 2]" "sample_order (sample_standing 10) Limit 10 5"
      "sample_id Limit 10" sample_env]
  by (auto simp: sample_order_def sample_id_def stored_hash_def is_currently_valid_def limit_pool_new_def)

section \<open>Lifetime capacity of the limit pool\<close>

datatype lop_action =
    AddVanilla limit_order | AddComposable limit_order | RemoveOrder order_id | RemoveParked order_id
  | ParkOrder order_id | NewPool b256 | RemovePool b256 | RemoveInvalid b256

text \<open>One call on the limit pool: whether it took an order in, and the pool after it.\<close>

fun lop_act :: "pool_env \<Rightarrow> lop_action \<Rightarrow> limit_order_pool \<Rightarrow> (bool \<times> limit_order_pool) option" where
  "lop_act env (AddVanilla x) l = (let (e, l') = lop_add_vanilla_order env x l in Some (e = None, l'))"
| "lop_act env (AddComposable x) l = (let (e, l') = lop_add_composable_order env x l in Some (e = None, l'))"
| "lop_act env (RemoveOrder oid) l = Some (False, snd (lop_remove_order oid l))"
| "lop_act env (RemoveParked oid) l = Some (False, snd (lop_remove_parked_order oid l))"
| "lop_act env (ParkOrder oid) l = map_option (Pair False) (lop_park_order env oid l)"
| "lop_act env (NewPool k) l = map_option (Pair False) (lop_new_pool k l)"
| "lop_act env (RemovePool k) l = Some (False, lop_remove_pool k l)"
| "lop_act env (RemoveInvalid h) l = Some (False, lop_remove_invalid_order h l)"

fun lop_acts :: "pool_env \<Rightarrow> lop_action list \<Rightarrow> limit_order_pool \<Rightarrow> (nat \<times> limit_order_pool) option" where
  "lop_acts env [] l = Some (0, l)"
| "lop_acts env (a # as) l =
     do { (ok, l') \<leftarrow> lop_act env a l; (n, l'') \<leftarrow> lop_acts env as l'; Some ((if ok then 1 else 0) + n, l'') }"

text \<open>No call but an addition touches the tracked size, and an addition charges the order's size.\<close>

definition charged :: "usize \<Rightarrow> size_tracker \<Rightarrow> bool \<Rightarrow> size_tracker \<Rightarrow> bool" where
  "charged sz t ok t' \<longleftrightarrow> (\<not> ok \<and> t' = t) \<or> (fst (has_space sz t) \<and> t' = snd (has_space sz t))"

lemma lop_act_charged:
  "lop_act env a l = Some (ok, l') \<Longrightarrow> charged (size_of_all_orders env) (lop_size l) ok (lop_size l')"
proof (cases a)
qed (auto simp: charged_def lop_add_vanilla_order_def lop_add_composable_order_def lop_remove_order_def
      lop_remove_parked_order_def lop_park_order_def lop_new_pool_def lop_remove_pool_def
      lop_remove_invalid_order_def Let_def bind_eq_Some_conv has_space_def
      split: prod.splits sum.splits option.splits if_splits)

lemma charged_bound:
  assumes "charged sz t ok t'" "st_max t = Some mx" "unat mx + unat sz < 2 ^ 64" "unat (st_current t) \<le> unat mx"
  shows "st_max t' = Some mx" "unat (st_current t') \<le> unat mx"
    and "unat (st_current t) + (if ok then unat sz else 0) \<le> unat (st_current t')"
proof -
  have "unat (st_current t + sz) = unat (st_current t) + unat sz"
    using assms(3,4) by (simp add: unat_word_ariths)
  then show "st_max t' = Some mx" "unat (st_current t') \<le> unat mx"
    "unat (st_current t) + (if ok then unat sz else 0) \<le> unat (st_current t')"
    using assms by (auto simp: charged_def has_space_def word_le_nat_alt split: if_splits)
qed

lemma lop_acts_charged:
  assumes "lop_acts env as l = Some (n, l')" "st_max (lop_size l) = Some mx"
    and "unat mx + unat (size_of_all_orders env) < 2 ^ 64" "unat (st_current (lop_size l)) \<le> unat mx"
  shows "unat (st_current (lop_size l)) + n * unat (size_of_all_orders env) \<le> unat mx"
  using assms
proof (induction as arbitrary: l n)
  case (Cons a as)
  from Cons.prems(1) obtain ok l1 n1 where step: "lop_act env a l = Some (ok, l1)"
    and rest: "lop_acts env as l1 = Some (n1, l')" and n: "n = (if ok then 1 else 0) + n1"
    by (auto simp: bind_eq_Some_conv)
  note c = charged_bound [OF lop_act_charged [OF step] Cons.prems(2-4)]
  show ?case
    using Cons.IH [OF rest c(1) Cons.prems(3) c(2)] c(3) n by (auto split: if_splits)
qed simp

text \<open>
  C39. Removing an order never gives its size back: whatever calls the limit pool serves, the number
  of orders it ever takes in, times the size of an order, stays below its byte limit, even when
  every one of them has long been removed.
\<close>
theorem limit_pool_lifetime_capacity:
  assumes "lop_acts env as (lop_new ids (Some mx)) = Some (n, l)"
    and "unat mx + unat (size_of_all_orders env) < 2 ^ 64"
  shows "n * unat (size_of_all_orders env) \<le> unat mx"
  using lop_acts_charged [OF assms(1) _ assms(2)] by (simp add: lop_new_def)

theorem limit_pool_lifetime_capacity_witness:
  "\<exists>n l. lop_acts sample_env
      [AddVanilla (sample_order (sample_standing 10) Limit 10 5), RemoveOrder (sample_id Limit 10),
       AddVanilla (sample_order (sample_standing 11) Limit 11 5), RemoveOrder (sample_id Limit 11),
       AddVanilla (sample_order (sample_standing 12) Limit 12 5)] (lop_new [7] (Some 1000)) = Some (n, l) \<and>
     n = 2 \<and> n * unat (size_of_all_orders sample_env) \<le> 1000"
proof -
  let ?as = "[AddVanilla (sample_order (sample_standing 10) Limit 10 5), RemoveOrder (sample_id Limit 10),
       AddVanilla (sample_order (sample_standing 11) Limit 11 5), RemoveOrder (sample_id Limit 11),
       AddVanilla (sample_order (sample_standing 12) Limit 12 5)]"
  obtain n l where run: "lop_acts sample_env ?as (lop_new [7] (Some 1000)) = Some (n, l)" and "n = 2"
    by (simp add: lop_new_def limit_pool_new_def composable_new_def lop_add_vanilla_order_def
        has_space_def sample_env_def limit_add_order_def is_currently_valid_def pending_defs
        lop_remove_order_def limit_remove_order_def)
  then show ?thesis
    using limit_pool_lifetime_capacity [OF run] by (simp add: sample_env_def)
qed

section \<open>Filled orders, finalization and reorgs\<close>

lemma map_of_insert_distinct:
  "distinct (map f xs) \<Longrightarrow> x \<in> set xs \<Longrightarrow> map_of (fold (\<lambda>x m. AList.update (f x) x m) xs m) (f x) = Some x"
  by (induction xs arbitrary: m rule: rev_induct) (auto simp: update_conv' image_iff)

lemma map_of_insert_other:
  "k \<notin> f ` set xs \<Longrightarrow> map_of (fold (\<lambda>x m. AList.update (f x) x m) xs m) k = map_of m k"
  by (induction xs arbitrary: m) (auto simp: update_conv')

lemma take_out_map: "map_of (snd (take_out hs m)) = (\<lambda>k. if k \<in> set hs then None else map_of m k)"
  by (induction hs arbitrary: m) (auto simp: delete_conv' split_beta Let_def fun_eq_iff)

lemma take_out_distinct:
  "distinct hs \<Longrightarrow> fst (take_out hs m) = List.map_filter (map_of m) hs"
proof (induction hs arbitrary: m)
  case (Cons h hs)
  have "List.map_filter (map_of (AList.delete h m)) hs = List.map_filter (map_of m) hs"
    using Cons.prems by (auto simp: List.map_filter_def delete_conv' intro!: map_cong filter_cong)
  with Cons show ?case
    by (simp add: Let_def split_beta List.map_filter_simps split: option.splits)
qed (simp add: List.map_filter_simps)

lemma map_filter_all: "(\<And>x. x \<in> set xs \<Longrightarrow> g (f x) = Some x) \<Longrightarrow> List.map_filter g (map f xs) = xs"
  by (induction xs) (simp_all add: List.map_filter_simps)

lemma new_orders_take_out:
  assumes "finalization_new_orders env b xs f = Some f'" "distinct (map (\<lambda>x. hash_of env (order x)) xs)"
  shows "fst (take_out (map (\<lambda>x. hash_of env (order x)) xs) (id_to_orders f')) = xs"
    and "map_of (block_to_ids f') b = Some (map (\<lambda>x. hash_of env (order x)) xs)"
  using assms
  by (auto simp: finalization_new_orders_def take_out_distinct update_conv' split: if_splits
      intro!: map_filter_all map_of_insert_distinct)

text \<open>
  Orders filled in a block wait in the finalization pool: finalizing the block hands back
  exactly these orders, forgets them and the block, and leaves every other order as it was.
\<close>
theorem finalized_returns_filled:
  assumes "finalization_new_orders env b xs f = Some f'" "distinct (map (\<lambda>x. hash_of env (order x)) xs)"
  shows "\<exists>f''. finalization_finalized b f' = (xs, f'') \<and>
    (\<forall>x\<in>set xs. \<not> finalization_has_order f'' (hash_of env (order x))) \<and>
    (\<forall>h. h \<notin> (\<lambda>x. hash_of env (order x)) ` set xs \<longrightarrow>
       map_of (id_to_orders f'') h = map_of (id_to_orders f) h) \<and>
    map_of (block_to_ids f'') = map_of (block_to_ids f)"
proof -
  let ?h = "\<lambda>x. hash_of env (order x)"
  obtain m where m: "take_out (map ?h xs) (id_to_orders f') = (xs, m)"
    using new_orders_take_out(1) [OF assms] by (cases "take_out (map ?h xs) (id_to_orders f')") simp
  have mm: "map_of m = (\<lambda>k. if k \<in> set (map ?h xs) then None else map_of (id_to_orders f') k)"
    using take_out_map [of "map ?h xs" "id_to_orders f'"] m by simp
  have f': "map_of (block_to_ids f) b = None"
    "block_to_ids f' = AList.update b (map ?h xs) (block_to_ids f)"
    "id_to_orders f' = fold (\<lambda>x m. AList.update (?h x) x m) xs (id_to_orders f)"
    using assms(1) by (auto simp: finalization_new_orders_def split: if_splits)
  show ?thesis
    using f' mm m
    by (auto simp: finalization_finalized_def new_orders_take_out(2) [OF assms] finalization_has_order_def
        map_of_insert_other update_conv' delete_conv' fun_eq_iff)
qed

theorem finalized_returns_filled_witness:
  "\<exists>f' f''. finalization_new_orders sample_env 3 [sample_order (sample_standing 10) Limit 10 5,
       sample_order (sample_standing 11) Limit 11 5] finalization_new = Some f' \<and>
     finalization_finalized 3 f' = ([sample_order (sample_standing 10) Limit 10 5,
       sample_order (sample_standing 11) Limit 11 5], f'')"
proof -
  let ?xs = "[sample_order (sample_standing 10) Limit 10 5, sample_order (sample_standing 11) Limit 11 5]"
  obtain f' where f': "finalization_new_orders sample_env 3 ?xs finalization_new = Some f'"
    by (simp add: finalization_new_orders_def finalization_new_def)
  moreover have "distinct (map (\<lambda>x. hash_of sample_env (order x)) ?xs)"
    by (simp add: sample_env_def sample_order_def sample_standing_def)
  ultimately show ?thesis using finalized_returns_filled by blast
qed

text \<open>
  C40. A reorg takes orders out of the pool but leaves the block's entry behind: filling orders in the
  block that replaces it, at the same height, fails the assertion.
\<close>
theorem refill_after_reorg_panics:
  "finalization_new_orders env b xs f = Some f' \<Longrightarrow>
   finalization_new_orders env b ys (snd (finalization_reorg hs f')) = None"
  by (auto simp: finalization_new_orders_def finalization_reorg_def update_conv' split_beta Let_def
      split: if_splits)

theorem refill_after_reorg_panics_witness:
  "\<exists>f'. finalization_new_orders sample_env 3 [sample_order (sample_standing 10) Limit 10 5] finalization_new = Some f' \<and>
     finalization_new_orders sample_env 3 [sample_order (sample_standing 10) Limit 10 5]
       (snd (finalization_reorg [10] f')) = None"
proof -
  obtain f' where f': "finalization_new_orders sample_env 3 [sample_order (sample_standing 10) Limit 10 5]
      finalization_new = Some f'"
    by (simp add: finalization_new_orders_def finalization_new_def)
  with refill_after_reorg_panics [OF this] show ?thesis by blast
qed

end
