(* ===== verification/Order_Storage.thy ===== *)
theory Order_Storage
  imports Order_Pools
begin

text \<open>
  The storage of verified orders, \<^verbatim>\<open>order-pool/src/order_storage.rs\<close>, with the pool sizes of
  \<^verbatim>\<open>order-pool/src/config.rs\<close>.

  The four mutexes are taken and released within one call, so that the storage is one record and a
  call one function on it. Metrics are left out. An operation that can panic returns an option.

  Shown here: what is added is found and taken out again, a filled order cannot be cancelled, no
  operation ever records a filled order.
\<close>

section \<open>Configuration\<close>

record sub_pool_limit =
  max_orders :: usize
  max_size :: usize

definition is_exceeded :: "sub_pool_limit \<Rightarrow> usize \<Rightarrow> usize \<Rightarrow> bool" where
  "is_exceeded s n sz \<longleftrightarrow> max_orders s < n \<or> max_size s < sz"

definition default_limit_sub_pool :: sub_pool_limit where
  "default_limit_sub_pool = \<lparr>max_orders = 1000, max_size = 20 * 1024 * 1024\<rparr>"

definition default_searcher_sub_pool :: sub_pool_limit where
  "default_searcher_sub_pool = \<lparr>max_orders = 100, max_size = 5 * 1024 * 1024\<rparr>"

record pool_config =
  pc_ids :: "b256 list"
  lo_pending_limit :: sub_pool_limit
  lo_queued_limit :: sub_pool_limit
  lo_parked_limit :: sub_pool_limit
  cl_pending_limit :: sub_pool_limit
  s_pending_limit :: sub_pool_limit
  max_account_slots :: usize

definition default_pool_config :: pool_config where
  "default_pool_config =
     \<lparr>pc_ids = [], lo_pending_limit = default_limit_sub_pool, lo_queued_limit = default_limit_sub_pool,
      lo_parked_limit = default_limit_sub_pool, cl_pending_limit = default_limit_sub_pool,
      s_pending_limit = default_searcher_sub_pool, max_account_slots = 200\<rparr>"

definition with_pool_ids :: "b256 list \<Rightarrow> pool_config" where
  "with_pool_ids ids = default_pool_config\<lparr>pc_ids := ids\<rparr>"

section \<open>State and operations\<close>

record order_storage =
  os_limit :: limit_order_pool
  os_searcher :: searcher_pool
  os_finalization :: finalization_pool
  os_filled :: "(b256 \<times> u64) list"

definition storage_new :: "pool_config \<Rightarrow> order_storage" where
  "storage_new c =
     \<lparr>os_limit = lop_new (pc_ids c) (Some (max_size (lo_pending_limit c))),
      os_searcher = searcher_new (pc_ids c) (Some (max_size (s_pending_limit c))),
      os_finalization = finalization_new, os_filled = []\<rparr>"

definition storage_remove_pool :: "b256 \<Rightarrow> order_storage \<Rightarrow> order_storage" where
  "storage_remove_pool k s =
     s\<lparr>os_searcher := searcher_remove_pool k (os_searcher s), os_limit := lop_remove_pool k (os_limit s)\<rparr>"

text \<open>The outer option is the panic on a parked order whose reason has no status.\<close>

definition fetch_status_of_order :: "order_storage \<Rightarrow> b256 \<Rightarrow> order_status option option" where
  "fetch_status_of_order s h =
     (if map_of (os_filled s) h \<noteq> None \<and> finalization_has_order (os_finalization s) h then Some (Some Filled)
      else if searcher_has_order (os_searcher s) h then Some (Some Pending)
      else lop_get_order_status (os_limit s) h)"

definition get_orders_by_pool :: "order_storage \<Rightarrow> b256 \<Rightarrow> order_location \<Rightarrow> all_orders list" where
  "get_orders_by_pool s k loc =
     (case loc of
        Limit \<Rightarrow> lop_get_all_orders_from_pool (os_limit s) k
      | Searcher \<Rightarrow> searcher_get_all_orders_from_pool (os_searcher s) k)"

definition map_inner :: "('o \<Rightarrow> 'p) \<Rightarrow> 'o stored_order \<Rightarrow> 'p stored_order" where
  "map_inner f x =
     \<lparr>order = f (order x), priority_data = priority_data x, invalidates = invalidates x,
      pool_id = pool_id x, currently_invalid = currently_invalid x, stored_is_bid = stored_is_bid x,
      is_valid = is_valid x, valid_block = valid_block x, order_id = order_id x,
      tob_reward = tob_reward x\<rparr>"

definition remove_searcher_order ::
    "order_id \<Rightarrow> order_storage \<Rightarrow> limit_order option \<times> order_storage" where
  "remove_searcher_order oid s =
     (let (r, sp) = searcher_remove_order oid (os_searcher s)
      in (map_option (map_inner TOB) r, s\<lparr>os_searcher := sp\<rparr>))"

definition remove_limit_order ::
    "order_id \<Rightarrow> order_storage \<Rightarrow> limit_order option \<times> order_storage" where
  "remove_limit_order oid s =
     (let (r, l) = lop_remove_order oid (os_limit s) in (r, s\<lparr>os_limit := l\<rparr>))"

definition remove_order_from_id ::
    "order_id \<Rightarrow> order_storage \<Rightarrow> limit_order option \<times> order_storage" where
  "remove_order_from_id oid s =
     (case oid_location oid of
        Limit \<Rightarrow> (let (r, l) = lop_remove_order oid (os_limit s) in (r, s\<lparr>os_limit := l\<rparr>))
      | Searcher \<Rightarrow>
          (let (r, sp) = searcher_remove_order oid (os_searcher s)
           in (map_option (map_inner TOB) r, s\<lparr>os_searcher := sp\<rparr>)))"

definition get_order_from_id :: "order_storage \<Rightarrow> order_id \<Rightarrow> limit_order option" where
  "get_order_from_id s oid =
     (case oid_location oid of
        Limit \<Rightarrow> lop_get_order (os_limit s) oid
      | Searcher \<Rightarrow>
          map_option (map_inner TOB) (searcher_get_order (os_searcher s) (oid_pool_id oid) (oid_hash oid)))"

definition storage_cancel_order ::
    "order_id \<Rightarrow> order_storage \<Rightarrow> limit_order option \<times> order_storage" where
  "storage_cancel_order oid s =
     (if finalization_has_order (os_finalization s) (oid_hash oid) then (None, s)
      else case oid_location oid of
             Limit \<Rightarrow> (let (r, l) = lop_remove_order oid (os_limit s) in (r, s\<lparr>os_limit := l\<rparr>))
           | Searcher \<Rightarrow>
               (let (r, sp) = searcher_remove_order oid (os_searcher s)
                in (map_option (map_inner TOB) r, s\<lparr>os_searcher := sp\<rparr>)))"

fun storage_park_orders :: "pool_env \<Rightarrow> order_id list \<Rightarrow> order_storage \<Rightarrow> order_storage option" where
  "storage_park_orders env [] s = Some s"
| "storage_park_orders env (oid # oids) s =
     (case oid_location oid of
        Limit \<Rightarrow> do { l \<leftarrow> lop_park_order env oid (os_limit s);
                      storage_park_orders env oids (s\<lparr>os_limit := l\<rparr>) }
      | Searcher \<Rightarrow> storage_park_orders env oids s)"

text \<open>None is the panic on a pool id without orders, which no caller can reach.\<close>

fun orders_of_pools :: "searcher_pool \<Rightarrow> b256 list \<Rightarrow> searcher_order list option" where
  "orders_of_pools sp [] = Some []"
| "orders_of_pools sp (k # ks) =
     do { xs \<leftarrow> get_orders_for_pool sp k; ys \<leftarrow> orders_of_pools sp ks; Some (xs @ ys) }"

definition top_tob_orders :: "order_storage \<Rightarrow> searcher_order list option" where
  "top_tob_orders s = orders_of_pools (os_searcher s) (get_all_pool_ids (os_searcher s))"

definition add_new_limit_order ::
    "pool_env \<Rightarrow> limit_order \<Rightarrow> order_storage \<Rightarrow> limit_pool_error option \<times> order_storage" where
  "add_new_limit_order env x s =
     (if is_vanilla (order x)
      then let (e, l) = lop_add_vanilla_order env x (os_limit s) in (e, s\<lparr>os_limit := l\<rparr>)
      else let (e, l) = lop_add_composable_order env x (os_limit s) in (e, s\<lparr>os_limit := l\<rparr>))"

definition add_new_searcher_order ::
    "pool_env \<Rightarrow> searcher_order \<Rightarrow> order_storage \<Rightarrow> searcher_pool_error option \<times> order_storage" where
  "add_new_searcher_order env x s =
     (let (e, sp) = add_searcher_order env x (os_searcher s) in (e, s\<lparr>os_searcher := sp\<rparr>))"

definition add_filled_orders ::
    "pool_env \<Rightarrow> u64 \<Rightarrow> limit_order list \<Rightarrow> order_storage \<Rightarrow> order_storage option" where
  "add_filled_orders env block xs s =
     do { f \<leftarrow> finalization_new_orders env block xs (os_finalization s); Some (s\<lparr>os_finalization := f\<rparr>) }"

definition storage_finalized_block :: "u64 \<Rightarrow> order_storage \<Rightarrow> order_storage" where
  "storage_finalized_block block s =
     s\<lparr>os_finalization := snd (finalization_finalized block (os_finalization s))\<rparr>"

definition storage_reorg :: "b256 list \<Rightarrow> order_storage \<Rightarrow> limit_order list \<times> order_storage" where
  "storage_reorg hs s =
     (let (xs, f) = finalization_reorg hs (os_finalization s) in (xs, s\<lparr>os_finalization := f\<rparr>))"

definition storage_remove_order ::
    "order_id \<Rightarrow> order_storage \<Rightarrow> limit_order option \<times> order_storage" where
  "storage_remove_order oid s =
     (case oid_location oid of
        Limit \<Rightarrow> remove_limit_order oid s | Searcher \<Rightarrow> remove_searcher_order oid s)"

definition storage_remove_parked_order ::
    "order_id \<Rightarrow> order_storage \<Rightarrow> limit_order option \<times> order_storage" where
  "storage_remove_parked_order oid s =
     (let (r, l) = lop_remove_parked_order oid (os_limit s) in (r, s\<lparr>os_limit := l\<rparr>))"

definition storage_get_all_orders :: "order_storage \<Rightarrow> (limit_order list \<times> searcher_order list) option" where
  "storage_get_all_orders s =
     do { xs \<leftarrow> top_tob_orders s; Some (lop_get_all_orders (os_limit s), xs) }"

definition storage_new_pool :: "b256 \<Rightarrow> order_storage \<Rightarrow> order_storage option" where
  "storage_new_pool k s =
     do { l \<leftarrow> lop_new_pool k (os_limit s);
          sp \<leftarrow> searcher_new_pool k (os_searcher s);
          Some (s\<lparr>os_limit := l, os_searcher := sp\<rparr>) }"

definition storage_remove_invalid_order :: "b256 \<Rightarrow> order_storage \<Rightarrow> order_storage" where
  "storage_remove_invalid_order h s =
     s\<lparr>os_searcher := searcher_remove_invalid_order h (os_searcher s),
       os_limit := lop_remove_invalid_order h (os_limit s)\<rparr>"

section \<open>Pools of pending pools\<close>

lemma disjoint_domD: "dom f \<inter> dom g = {} \<Longrightarrow> g k \<noteq> None \<Longrightarrow> f k = None"
  by (auto simp: disjoint_iff domIff)

lemma map_add_delete: "f(k := None) ++ g(k := None) = (f ++ g)(k := None)"
  by (rule ext) (simp add: map_add_def split: option.split)

lemma delete_absent: "f k = None \<Longrightarrow> f(k := None) = f"
  by auto

definition pools_get :: "(b256 \<times> 'o pending_pool) list \<Rightarrow> b256 \<times> b256 \<rightharpoonup> 'o stored_order" where
  "pools_get m = (\<lambda>(k, h). do { p \<leftarrow> map_of m k; pending_get_order p h })"

definition pools_remove :: "b256 \<Rightarrow> b256 \<Rightarrow> (b256 \<times> 'o pending_pool) list \<Rightarrow>
    'o stored_order option \<times> (b256 \<times> 'o pending_pool) list" where
  "pools_remove k h m =
     (case map_of m k of
        None \<Rightarrow> (None, m)
      | Some p \<Rightarrow> let (r, p') = pending_remove_order h p in (r, AList.update k p' m))"

definition pools_inv :: "(b256 \<times> 'o pending_pool) list \<Rightarrow> bool" where
  "pools_inv m \<longleftrightarrow> (\<forall>k p. map_of m k = Some p \<longrightarrow> pending_inv p)"

definition pools_fresh :: "'o stored_order \<Rightarrow> (b256 \<times> 'o pending_pool) list \<Rightarrow> bool" where
  "pools_fresh x m \<longleftrightarrow> (\<exists>p. map_of m (pool_id x) = Some p \<and> pending_fresh x p)"

definition parkeds_get :: "(b256 \<times> parked_pool) list \<Rightarrow> b256 \<times> b256 \<rightharpoonup> limit_order" where
  "parkeds_get m = (\<lambda>(k, h). do { p \<leftarrow> map_of m k; parked_get_order p h })"

lemma pools_get_update:
  "pools_get (AList.update k p m) = (\<lambda>(j, h). if j = k then pending_get_order p h else pools_get m (j, h))"
  by (auto simp: pools_get_def update_conv' fun_eq_iff)

lemma parkeds_get_update:
  "parkeds_get (AList.update k p m) = (\<lambda>(j, h). if j = k then parked_get_order p h else parkeds_get m (j, h))"
  by (auto simp: parkeds_get_def update_conv' fun_eq_iff)

lemma pools_inv_update: "pools_inv m \<Longrightarrow> pending_inv p \<Longrightarrow> pools_inv (AList.update k p m)"
  by (auto simp: pools_inv_def update_conv')

lemma pools_get_add:
  "map_of m (pool_id x) = Some p \<Longrightarrow>
   pools_get (AList.update (pool_id x) (pending_add_order x p) m) = (pools_get m)((pool_id x, stored_hash x) \<mapsto> x)"
  by (auto simp: pools_get_update pending_get_add fun_eq_iff) (simp add: pools_get_def)

lemma pools_inv_add:
  "pools_inv m \<Longrightarrow> map_of m (pool_id x) = Some p \<Longrightarrow> pending_fresh x p \<Longrightarrow>
   pools_inv (AList.update (pool_id x) (pending_add_order x p) m)"
  by (rule pools_inv_update) (auto simp: pools_inv_def intro: pending_inv_add)

lemma pools_remove:
  assumes "pools_inv m" "pools_remove k h m = (r, m')"
  shows "r = pools_get m (k, h)" "pools_get m' = (pools_get m)((k, h) := None)" "pools_inv m'"
proof (atomize(full), cases "map_of m k")
  case None
  then show "r = pools_get m (k, h) \<and> pools_get m' = (pools_get m)((k, h) := None) \<and> pools_inv m'"
    using assms by (auto simp: pools_remove_def pools_get_def fun_eq_iff)
next
  case (Some p)
  obtain p' where p': "pending_remove_order h p = (r, p')" "m' = AList.update k p' m"
    using assms(2) Some by (auto simp: pools_remove_def split: prod.splits)
  have "pending_inv p" using assms(1) Some by (simp add: pools_inv_def)
  note p = pending_remove_result [OF this, of h] pending_get_remove [of h p] pending_inv_remove [OF this, of h]
  show "r = pools_get m (k, h) \<and> pools_get m' = (pools_get m)((k, h) := None) \<and> pools_inv m'"
    using p p' Some assms(1) by (auto simp: pools_get_update fun_eq_iff pools_inv_update) (simp_all add: pools_get_def)
qed

lemma parkeds_remove:
  assumes "map_of m k = Some p" "parked_remove_order h p = (r, p')"
  shows "r = parkeds_get m (k, h)" "parkeds_get (AList.update k p' m) = (parkeds_get m)((k, h) := None)"
  using assms
  by (auto simp: parkeds_get_update parked_remove_order_def parked_get_order_def delete_conv' fun_eq_iff)
    (simp_all add: parkeds_get_def parked_get_order_def)

section \<open>The limit order pool keeps the contract\<close>

definition lop_lookup :: "limit_order_pool \<Rightarrow> b256 \<times> b256 \<rightharpoonup> limit_order" where
  "lop_lookup l =
     pools_get (composable_orders l) ++
       (parkeds_get (parked_orders (limit_orders l)) ++ pools_get (pending_orders (limit_orders l)))"

text \<open>No order is in two of the pending, the parked and the composable pool.\<close>

definition lop_inv :: "limit_order_pool \<Rightarrow> bool" where
  "lop_inv l \<longleftrightarrow>
     pools_inv (pending_orders (limit_orders l)) \<and> pools_inv (composable_orders l) \<and>
     dom (parkeds_get (parked_orders (limit_orders l))) \<inter> dom (pools_get (pending_orders (limit_orders l))) = {} \<and>
     dom (pools_get (composable_orders l)) \<inter> dom (pools_get (pending_orders (limit_orders l))) = {} \<and>
     dom (pools_get (composable_orders l)) \<inter> dom (parkeds_get (parked_orders (limit_orders l))) = {}"

definition stored_key :: "'o stored_order \<Rightarrow> b256 \<times> b256" where
  "stored_key x = (pool_id x, stored_hash x)"

lemma lop_get_order_lookup: "lop_get_order l oid = lop_lookup l (oid_pool_id oid, oid_hash oid)"
  by (simp add: lop_get_order_def lop_lookup_def limit_get_order_def composable_get_order_def pools_get_def
      parkeds_get_def map_add_def split: option.splits)

definition lop_add :: "pool_env \<Rightarrow> limit_order \<Rightarrow> limit_order_pool \<Rightarrow> limit_order_pool" where
  "lop_add env x l =
     snd (if is_vanilla (order x) then lop_add_vanilla_order env x l else lop_add_composable_order env x l)"

text \<open>
  The order is new to the pool, is filed under its own hash, fits, and its pool id is registered
  where the order goes.
\<close>

definition lop_fresh :: "pool_env \<Rightarrow> limit_order \<Rightarrow> limit_order_pool \<Rightarrow> bool" where
  "lop_fresh env x l \<longleftrightarrow>
     lop_lookup l (stored_key x) = None \<and> hash_of env (order x) = stored_hash x \<and>
     fst (has_space (size_of_all_orders env) (lop_size l)) \<and>
     (if is_vanilla (order x)
      then if is_currently_valid x then pools_fresh x (pending_orders (limit_orders l))
           else map_of (parked_orders (limit_orders l)) (pool_id x) \<noteq> None
      else pools_fresh x (composable_orders l))"

lemma lop_lookup_None:
  "lop_lookup l k = None \<longleftrightarrow>
     pools_get (composable_orders l) k = None \<and> parkeds_get (parked_orders (limit_orders l)) k = None \<and>
     pools_get (pending_orders (limit_orders l)) k = None"
  by (auto simp: lop_lookup_def)

lemma lop_add_cases:
  assumes "lop_fresh env x l"
  obtains (pending) p where "map_of (pending_orders (limit_orders l)) (pool_id x) = Some p" "pending_fresh x p"
      "pending_orders (limit_orders (lop_add env x l)) =
         AList.update (pool_id x) (pending_add_order x p) (pending_orders (limit_orders l))"
      "parked_orders (limit_orders (lop_add env x l)) = parked_orders (limit_orders l)"
      "composable_orders (lop_add env x l) = composable_orders l"
  | (parked) p where "map_of (parked_orders (limit_orders l)) (pool_id x) = Some p"
      "pending_orders (limit_orders (lop_add env x l)) = pending_orders (limit_orders l)"
      "parked_orders (limit_orders (lop_add env x l)) =
         AList.update (pool_id x) (parked_new_order env x p) (parked_orders (limit_orders l))"
      "composable_orders (lop_add env x l) = composable_orders l"
  | (composable) p where "map_of (composable_orders l) (pool_id x) = Some p" "pending_fresh x p"
      "limit_orders (lop_add env x l) = limit_orders l"
      "composable_orders (lop_add env x l) = AList.update (pool_id x) (pending_add_order x p) (composable_orders l)"
proof (cases "is_vanilla (order x)")
  case True
  show ?thesis
  proof (cases "is_currently_valid x")
    case valid: True
    with True assms obtain p where "map_of (pending_orders (limit_orders l)) (pool_id x) = Some p"
      "pending_fresh x p" "fst (has_space (size_of_all_orders env) (lop_size l))"
      by (auto simp: lop_fresh_def pools_fresh_def)
    then show ?thesis
      using True valid by (intro pending) (simp_all add: lop_add_def lop_add_vanilla_order_def limit_add_order_def split_beta)
  next
    case invalid: False
    with True assms obtain p where "map_of (parked_orders (limit_orders l)) (pool_id x) = Some p"
      "fst (has_space (size_of_all_orders env) (lop_size l))"
      by (auto simp: lop_fresh_def)
    then show ?thesis
      using True invalid by (intro parked) (simp_all add: lop_add_def lop_add_vanilla_order_def limit_add_order_def split_beta)
  qed
next
  case False
  with assms obtain p where "map_of (composable_orders l) (pool_id x) = Some p"
    "pending_fresh x p" "fst (has_space (size_of_all_orders env) (lop_size l))"
    by (auto simp: lop_fresh_def pools_fresh_def)
  then show ?thesis
    using False by (intro composable) (simp_all add: lop_add_def lop_add_composable_order_def composable_add_order_def split_beta)
qed

lemma parkeds_get_add:
  "map_of m (pool_id x) = Some p \<Longrightarrow> hash_of env (order x) = stored_hash x \<Longrightarrow>
   parkeds_get (AList.update (pool_id x) (parked_new_order env x p) m) = (parkeds_get m)(stored_key x \<mapsto> x)"
  by (auto simp: parkeds_get_update parked_new_order_def parked_get_order_def update_conv' stored_key_def fun_eq_iff)
    (simp add: parkeds_get_def parked_get_order_def)

lemma lop_lookup_add:
  assumes "lop_fresh env x l"
  shows "lop_lookup (lop_add env x l) = (lop_lookup l)(stored_key x \<mapsto> x)"
proof -
  have free: "lop_lookup l (stored_key x) = None" and hash: "hash_of env (order x) = stored_hash x"
    using assms by (simp_all add: lop_fresh_def)
  from assms show ?thesis
  proof (cases rule: lop_add_cases)
    case (pending p)
    then show ?thesis by (simp add: lop_lookup_def pools_get_add stored_key_def)
  next
    case (parked p)
    then show ?thesis
      using free by (simp add: lop_lookup_def parkeds_get_add [OF _ hash] lop_lookup_None domIff map_add_upd_left)
  next
    case (composable p)
    then show ?thesis
      using free by (simp add: lop_lookup_def pools_get_add stored_key_def lop_lookup_None domIff map_add_upd_left)
  qed
qed

lemma lop_inv_add:
  assumes "lop_inv l" "lop_fresh env x l"
  shows "lop_inv (lop_add env x l)"
proof -
  have free: "lop_lookup l (stored_key x) = None" and hash: "hash_of env (order x) = stored_hash x"
    using assms(2) by (simp_all add: lop_fresh_def)
  from assms(2) show ?thesis
  proof (cases rule: lop_add_cases)
    case (pending p)
    then show ?thesis
      using assms(1) free by (simp add: lop_inv_def pools_inv_add pools_get_add lop_lookup_None domIff stored_key_def)
  next
    case (parked p)
    then show ?thesis
      using assms(1) free by (simp add: lop_inv_def parkeds_get_add [OF _ hash] lop_lookup_None domIff)
  next
    case (composable p)
    then show ?thesis
      using assms(1) free by (simp add: lop_inv_def pools_inv_add pools_get_add lop_lookup_None domIff stored_key_def)
  qed
qed

lemma composable_remove_pools: "composable_remove_order k h m = pools_remove k h m"
  by (simp add: composable_remove_order_def pools_remove_def)

lemma limit_remove_order_pools:
  "limit_remove_order k h l =
     (case pools_remove k h (pending_orders l) of
        (Some x, m) \<Rightarrow> (Some x, l\<lparr>pending_orders := m\<rparr>)
      | (None, m) \<Rightarrow> limit_remove_parked_order k h (l\<lparr>pending_orders := m\<rparr>))"
  by (simp add: limit_remove_order_def pools_remove_def Let_def split: option.splits prod.splits)

lemma limit_remove_parked:
  assumes "limit_remove_parked_order k h l = (r, l')"
  shows "r = parkeds_get (parked_orders l) (k, h)"
    "parkeds_get (parked_orders l') = (parkeds_get (parked_orders l))((k, h) := None)"
    "pending_orders l' = pending_orders l"
  using assms parkeds_remove [of "parked_orders l" k _ h]
  by (auto simp: limit_remove_parked_order_def split: option.splits prod.splits)
    (auto simp: parkeds_get_def fun_eq_iff)

text \<open>What a removal takes out of each of the three pools.\<close>

lemma lop_remove_order_pools:
  assumes inv: "lop_inv l" and rem: "lop_remove_order oid l = (r, l')"
  defines "key \<equiv> (oid_pool_id oid, oid_hash oid)"
  shows "r = lop_lookup l key"
    and "pools_inv (pending_orders (limit_orders l'))" "pools_inv (composable_orders l')"
    and "pools_get (pending_orders (limit_orders l')) = (pools_get (pending_orders (limit_orders l)))(key := None)"
    and "parkeds_get (parked_orders (limit_orders l')) = (parkeds_get (parked_orders (limit_orders l)))(key := None)"
    and "pools_get (composable_orders l') = (pools_get (composable_orders l))(key := None)"
proof -
  let ?k = "oid_pool_id oid" and ?h = "oid_hash oid"
  have pi: "pools_inv (pending_orders (limit_orders l))" and ci: "pools_inv (composable_orders l)"
    and d1: "dom (parkeds_get (parked_orders (limit_orders l))) \<inter> dom (pools_get (pending_orders (limit_orders l))) = {}"
    and d2: "dom (pools_get (composable_orders l)) \<inter> dom (pools_get (pending_orders (limit_orders l))) = {}"
    and d3: "dom (pools_get (composable_orders l)) \<inter> dom (parkeds_get (parked_orders (limit_orders l))) = {}"
    using inv by (simp_all add: lop_inv_def)
  obtain a m where am: "pools_remove ?k ?h (pending_orders (limit_orders l)) = (a, m)" by fastforce
  obtain b n where bn: "limit_remove_parked_order ?k ?h ((limit_orders l)\<lparr>pending_orders := m\<rparr>) = (b, n)" by fastforce
  obtain c q where cq: "pools_remove ?k ?h (composable_orders l) = (c, q)" by fastforce
  note a = pools_remove [OF pi am] and b = limit_remove_parked [OF bn] and c = pools_remove [OF ci cq]
  have abc: "r = (case a of Some x \<Rightarrow> Some x | None \<Rightarrow> case b of Some x \<Rightarrow> Some x | None \<Rightarrow> c)"
    "l' = (case a of Some x \<Rightarrow> l\<lparr>limit_orders := (limit_orders l)\<lparr>pending_orders := m\<rparr>\<rparr>
           | None \<Rightarrow> case b of Some x \<Rightarrow> l\<lparr>limit_orders := n\<rparr>
           | None \<Rightarrow> l\<lparr>limit_orders := n, composable_orders := q\<rparr>)"
    using rem am bn cq
    by (auto simp: lop_remove_order_def limit_remove_order_pools composable_remove_pools split: option.splits prod.splits)
  have gone: "a \<noteq> None \<Longrightarrow> parkeds_get (parked_orders (limit_orders l)) key = None"
    "a \<noteq> None \<or> b \<noteq> None \<Longrightarrow> pools_get (composable_orders l) key = None"
    using disjoint_domD [OF d1, of key] disjoint_domD [OF d2, of key] disjoint_domD [OF d3, of key] a(1) b(1)
    by (auto simp: key_def)
  show "r = lop_lookup l key"
    using abc(1) a(1) b(1) c(1) by (auto simp: lop_lookup_def key_def map_add_def split: option.splits)
  show "pools_inv (pending_orders (limit_orders l'))" "pools_inv (composable_orders l')"
    using abc(2) a(3) b(3) c(3) ci by (auto split: option.splits)
  show "pools_get (pending_orders (limit_orders l')) = (pools_get (pending_orders (limit_orders l)))(key := None)"
    using abc(2) a(2) b(3) by (auto simp: key_def split: option.splits)
  show "parkeds_get (parked_orders (limit_orders l')) = (parkeds_get (parked_orders (limit_orders l)))(key := None)"
    using abc(2) b(2) gone(1) by (auto simp: key_def delete_absent split: option.splits)
  show "pools_get (composable_orders l') = (pools_get (composable_orders l))(key := None)"
    using abc(2) c(2) gone(2) by (auto simp: key_def delete_absent split: option.splits)
qed

lemma lop_remove_laws:
  assumes inv: "lop_inv l" and rem: "lop_remove_order oid l = (r, l')"
  defines "key \<equiv> (oid_pool_id oid, oid_hash oid)"
  shows "r = lop_lookup l key" "lop_lookup l' = (lop_lookup l)(key := None)" "lop_inv l'"
proof -
  note p = lop_remove_order_pools [OF inv rem, folded key_def]
  show "r = lop_lookup l key" by (rule p(1))
  show "lop_lookup l' = (lop_lookup l)(key := None)"
    by (simp add: lop_lookup_def p(4-6) map_add_delete)
  show "lop_inv l'"
    using inv by (auto simp: lop_inv_def p disjoint_iff domIff)
qed

text \<open>The order identifier that points at a key.\<close>

definition id_at :: "order_location \<Rightarrow> b256 \<times> b256 \<Rightarrow> order_id" where
  "id_at loc key = \<lparr>oid_address = 0, oid_pool_id = fst key, oid_hash = snd key, oid_reuse_avoidance = Nonce 0,
     oid_deadline = None, oid_flash_block = None, oid_location = loc\<rparr>"

lemma id_at_simps [simp]:
  "oid_pool_id (id_at loc key) = fst key" "oid_hash (id_at loc key) = snd key" "oid_location (id_at loc key) = loc"
  by (simp_all add: id_at_def)

interpretation limits: sub_pool lop_inv "lop_fresh env" stored_key lop_lookup "lop_add env"
    "\<lambda>key. lop_remove_order (id_at Limit key)" for env
proof unfold_locales
  fix l key
  assume inv: "lop_inv l"
  obtain r l' where rem: "lop_remove_order (id_at Limit key) l = (r, l')" by fastforce
  with lop_remove_laws [OF inv rem] show "lop_inv (snd (lop_remove_order (id_at Limit key) l))"
    "lop_lookup (snd (lop_remove_order (id_at Limit key) l)) = (lop_lookup l)(key := None)"
    "fst (lop_remove_order (id_at Limit key) l) = lop_lookup l key"
    by simp_all
qed (simp_all add: lop_inv_add lop_lookup_add)

section \<open>The searcher pool keeps the contract\<close>

definition searcher_add :: "pool_env \<Rightarrow> searcher_order \<Rightarrow> searcher_pool \<Rightarrow> searcher_pool" where
  "searcher_add env x sp = snd (add_searcher_order env x sp)"

definition searcher_fresh :: "pool_env \<Rightarrow> searcher_order \<Rightarrow> searcher_pool \<Rightarrow> bool" where
  "searcher_fresh env x sp \<longleftrightarrow>
     fst (has_space (size_of_tob env) (sp_size sp)) \<and> pools_fresh x (searcher_orders sp)"

lemma searcher_get_order_pools: "searcher_get_order sp k h = pools_get (searcher_orders sp) (k, h)"
  by (simp add: searcher_get_order_def pools_get_def)

lemma searcher_remove_pools:
  "searcher_remove_order oid sp =
     (let (r, m) = pools_remove (oid_pool_id oid) (oid_hash oid) (searcher_orders sp)
      in (r, sp\<lparr>searcher_orders := m\<rparr>))"
  by (simp add: searcher_remove_order_def pools_remove_def split: option.splits prod.splits)

lemma searcher_add_orders:
  assumes "searcher_fresh env x sp"
  obtains p where "map_of (searcher_orders sp) (pool_id x) = Some p" "pending_fresh x p"
    "searcher_orders (searcher_add env x sp) = AList.update (pool_id x) (pending_add_order x p) (searcher_orders sp)"
  using assms
  by (auto simp: searcher_fresh_def pools_fresh_def searcher_add_def add_searcher_order_def split_beta)

interpretation searchers: sub_pool "\<lambda>sp :: searcher_pool. pools_inv (searcher_orders sp)" "searcher_fresh env" stored_key
    "\<lambda>sp :: searcher_pool. pools_get (searcher_orders sp)" "searcher_add env" "\<lambda>key. searcher_remove_order (id_at Searcher key)" for env
proof unfold_locales
  fix sp :: searcher_pool and x
  assume inv: "pools_inv (searcher_orders sp)" and fr: "searcher_fresh env x sp"
  from fr obtain p where p: "map_of (searcher_orders sp) (pool_id x) = Some p" "pending_fresh x p"
    "searcher_orders (searcher_add env x sp) = AList.update (pool_id x) (pending_add_order x p) (searcher_orders sp)"
    by (rule searcher_add_orders)
  show "pools_inv (searcher_orders (searcher_add env x sp))"
    "pools_get (searcher_orders (searcher_add env x sp)) = (pools_get (searcher_orders sp))(stored_key x \<mapsto> x)"
    using p inv by (simp_all add: pools_inv_add pools_get_add stored_key_def)
next
  fix sp :: searcher_pool and key
  assume inv: "pools_inv (searcher_orders sp)"
  obtain r m where rem: "pools_remove (fst key) (snd key) (searcher_orders sp) = (r, m)" by fastforce
  from pools_remove [OF inv rem] rem
  show "pools_inv (searcher_orders (snd (searcher_remove_order (id_at Searcher key) sp)))"
    "pools_get (searcher_orders (snd (searcher_remove_order (id_at Searcher key) sp))) =
       (pools_get (searcher_orders sp))(key := None)"
    "fst (searcher_remove_order (id_at Searcher key) sp) = pools_get (searcher_orders sp) key"
    by (simp_all add: searcher_remove_pools)
qed

section \<open>The storage keeps the contract\<close>

text \<open>
  How the indexer files a verified order. None is the panic of the expectation that an order
  addressed to the searcher pool is a top-of-block order.
\<close>

definition insert_order :: "pool_env \<Rightarrow> limit_order \<Rightarrow> order_storage \<Rightarrow>
    ((limit_pool_error + searcher_pool_error) option \<times> order_storage) option" where
  "insert_order env x s =
     (case oid_location (order_id x) of
        Searcher \<Rightarrow>
          (case order x of
             TOB t \<Rightarrow> let (e, s') = add_new_searcher_order env (map_inner (\<lambda>_. t) x) s
                      in Some (map_option Inr e, s')
           | _ \<Rightarrow> None)
      | Limit \<Rightarrow> let (e, s') = add_new_limit_order env x s in Some (map_option Inl e, s'))"

definition storage_add :: "pool_env \<Rightarrow> limit_order \<Rightarrow> order_storage \<Rightarrow> order_storage" where
  "storage_add env x s = (case insert_order env x s of None \<Rightarrow> s | Some (e, s') \<Rightarrow> s')"

definition storage_get :: "order_storage \<Rightarrow> order_location \<times> b256 \<times> b256 \<rightharpoonup> limit_order" where
  "storage_get s = (\<lambda>(loc, key). get_order_from_id s (id_at loc key))"

definition storage_take :: "order_location \<times> b256 \<times> b256 \<Rightarrow> order_storage \<Rightarrow> limit_order option \<times> order_storage" where
  "storage_take = (\<lambda>(loc, key). remove_order_from_id (id_at loc key))"

definition storage_key :: "limit_order \<Rightarrow> order_location \<times> b256 \<times> b256" where
  "storage_key x = (oid_location (order_id x), stored_key x)"

definition storage_inv :: "order_storage \<Rightarrow> bool" where
  "storage_inv s \<longleftrightarrow> lop_inv (os_limit s) \<and> pools_inv (searcher_orders (os_searcher s))"

definition storage_fresh :: "pool_env \<Rightarrow> limit_order \<Rightarrow> order_storage \<Rightarrow> bool" where
  "storage_fresh env x s \<longleftrightarrow>
     (case oid_location (order_id x) of
        Limit \<Rightarrow> lop_fresh env x (os_limit s)
      | Searcher \<Rightarrow>
          (case order x of TOB t \<Rightarrow> searcher_fresh env (map_inner (\<lambda>_. t) x) (os_searcher s) | _ \<Rightarrow> False))"

lemma storage_get_split:
  "storage_get s (loc, key) =
     (case loc of
        Limit \<Rightarrow> lop_lookup (os_limit s) key
      | Searcher \<Rightarrow> map_option (map_inner TOB) (pools_get (searcher_orders (os_searcher s)) key))"
  by (cases loc) (simp_all add: storage_get_def get_order_from_id_def lop_get_order_lookup searcher_get_order_pools)

lemma stored_key_map_inner [simp]: "stored_key (map_inner f x) = stored_key x"
  by (simp add: map_inner_def stored_key_def stored_hash_def)

lemma map_inner_back: "order x = f y \<Longrightarrow> map_inner f (map_inner (\<lambda>_. y) x) = x"
  by (simp add: map_inner_def)

lemma storage_add_limit:
  "oid_location (order_id x) = Limit \<Longrightarrow> storage_add env x s = s\<lparr>os_limit := lop_add env x (os_limit s)\<rparr>"
  by (simp add: storage_add_def insert_order_def add_new_limit_order_def lop_add_def split_beta Let_def)

lemma storage_add_searcher:
  "oid_location (order_id x) = Searcher \<Longrightarrow> order x = TOB t \<Longrightarrow>
   storage_add env x s = s\<lparr>os_searcher := searcher_add env (map_inner (\<lambda>_. t) x) (os_searcher s)\<rparr>"
  by (simp add: storage_add_def insert_order_def add_new_searcher_order_def searcher_add_def split_beta Let_def)

lemma storage_fresh_searcher:
  "oid_location (order_id x) = Searcher \<Longrightarrow> storage_fresh env x s \<Longrightarrow>
   \<exists>t. order x = TOB t \<and> searcher_fresh env (map_inner (\<lambda>_. t) x) (os_searcher s)"
  by (cases "order x") (simp_all add: storage_fresh_def)

lemma storage_inv_add: "storage_inv s \<Longrightarrow> storage_fresh env x s \<Longrightarrow> storage_inv (storage_add env x s)"
proof (cases "oid_location (order_id x)")
  case Limit
  assume "storage_inv s" "storage_fresh env x s"
  with Limit show ?thesis by (simp add: storage_inv_def storage_fresh_def storage_add_limit lop_inv_add)
next
  case Searcher
  assume inv: "storage_inv s" and fr: "storage_fresh env x s"
  from storage_fresh_searcher [OF Searcher fr] searchers.inv_add [of "os_searcher s" env] inv Searcher
  show ?thesis by (auto simp: storage_inv_def storage_add_searcher)
qed

lemma storage_get_add:
  "storage_inv s \<Longrightarrow> storage_fresh env x s \<Longrightarrow>
   storage_get (storage_add env x s) = (storage_get s)(storage_key x \<mapsto> x)"
proof (cases "oid_location (order_id x)")
  case Limit
  assume "storage_fresh env x s"
  then have "lop_lookup (lop_add env x (os_limit s)) = (lop_lookup (os_limit s))(stored_key x \<mapsto> x)"
    using Limit by (simp add: storage_fresh_def lop_lookup_add)
  with Limit show ?thesis
    by (intro ext, rename_tac key, case_tac key)
      (auto simp: storage_get_split storage_add_limit storage_key_def split: order_location.splits)
next
  case Searcher
  assume inv: "storage_inv s" and fr: "storage_fresh env x s"
  from storage_fresh_searcher [OF Searcher fr] obtain t where t: "order x = TOB t"
    and f: "searcher_fresh env (map_inner (\<lambda>_. t) x) (os_searcher s)" by blast
  have "pools_get (searcher_orders (searcher_add env (map_inner (\<lambda>_. t) x) (os_searcher s))) =
      (pools_get (searcher_orders (os_searcher s)))(stored_key x \<mapsto> map_inner (\<lambda>_. t) x)"
    using searchers.get_add [OF _ f] inv by (simp add: storage_inv_def)
  with Searcher t map_inner_back [of x TOB t] show ?thesis
    by (intro ext, rename_tac key, case_tac key)
      (auto simp: storage_get_split storage_add_searcher storage_key_def split: order_location.splits)
qed

lemma storage_take_laws:
  assumes "storage_inv s"
  shows "storage_inv (snd (storage_take key s))" "storage_get (snd (storage_take key s)) = (storage_get s)(key := None)"
    "fst (storage_take key s) = storage_get s key"
proof -
  obtain loc k where key: "key = (loc, k)" by (rule prod.exhaust [of key])
  have inv: "lop_inv (os_limit s)" "pools_inv (searcher_orders (os_searcher s))"
    using assms by (simp_all add: storage_inv_def)
  note l = limits.inv_remove [OF inv(1), of k] limits.get_remove [OF inv(1), of k] limits.remove_result [OF inv(1), of k]
  note r = searchers.inv_remove [OF inv(2), of k] searchers.get_remove [OF inv(2), of k]
    searchers.remove_result [OF inv(2), of k]
  show "storage_inv (snd (storage_take key s))" "fst (storage_take key s) = storage_get s key"
    using l r inv
    by (cases loc; simp add: key storage_take_def remove_order_from_id_def storage_inv_def split_beta Let_def
        storage_get_split)+
  show "storage_get (snd (storage_take key s)) = (storage_get s)(key := None)"
    using l(2) r(2)
    by (intro ext, rename_tac j, case_tac j, cases loc)
      (auto simp: key storage_take_def remove_order_from_id_def split_beta Let_def storage_get_split
        split: order_location.splits)
qed

interpretation stored: sub_pool storage_inv "storage_fresh env" storage_key storage_get "storage_add env" storage_take
  for env
  by unfold_locales (simp_all add: storage_inv_add storage_get_add storage_take_laws)

lemma map_of_new_pools:
  "map_of (fold (\<lambda>k m. AList.update k p m) ids m) k = (if k \<in> set ids then Some p else map_of m k)"
  by (induction ids arbitrary: m) (auto simp: update_conv')

lemma pools_get_new: "pools_get (fold (\<lambda>k m. AList.update k pending_new m) ids []) = Map.empty"
  by (auto simp: pools_get_def map_of_new_pools pending_get_new fun_eq_iff)

lemma parkeds_get_new: "parkeds_get (fold (\<lambda>k m. AList.update k parked_new m) ids []) = Map.empty"
  by (auto simp: parkeds_get_def map_of_new_pools parked_new_def parked_get_order_def fun_eq_iff)

lemma pools_inv_new: "pools_inv (fold (\<lambda>k m. AList.update k pending_new m) ids [])"
  by (auto simp: pools_inv_def map_of_new_pools pending_inv_new split: if_splits)

lemma storage_inv_new: "storage_inv (storage_new c)"
  by (simp add: storage_inv_def storage_new_def lop_inv_def lop_new_def limit_pool_new_def composable_new_def
      searcher_new_def pools_inv_new pools_get_new parkeds_get_new)

lemma storage_get_new: "storage_get (storage_new c) = Map.empty"
  by (intro ext, rename_tac key, case_tac key)
    (simp add: storage_get_split storage_new_def lop_lookup_def lop_new_def limit_pool_new_def composable_new_def
      searcher_new_def pools_get_new parkeds_get_new split: order_location.split)

text \<open>
  C1. Starting from the empty storage of any configuration, filing verified orders and taking
  orders out behaves like a map from location, pool and hash to orders, whichever of the pending,
  parked, composable and searcher pools an order goes to: every lookup agrees with the map and
  every removal returns what the map held. The orders filed must be new, must fit, belong to a
  registered pool and differ in priority from the orders on their side of the book.
\<close>
theorem storage_refines_map:
  assumes "fresh_run (storage_fresh env) (storage_add env) storage_take ops (storage_new c)"
    and "pool_run (storage_add env) storage_take ops (storage_new c) = (rs, s)"
  shows "pool_run (map_add_keyed storage_key) map_remove ops Map.empty = (rs, storage_get s)"
  using stored.run_refines_map [OF storage_inv_new assms(1)] assms(2) by (simp add: storage_get_new)

lemmas storage_run_defs = storage_fresh_def storage_add_def insert_order_def add_new_limit_order_def
  lop_add_vanilla_order_def limit_add_order_def is_currently_valid_def has_space_def lop_fresh_def
  pools_fresh_def storage_new_def lop_new_def limit_pool_new_def composable_new_def with_pool_ids_def
  default_pool_config_def default_limit_sub_pool_def default_searcher_sub_pool_def sample_env_def
  sample_standing_def pool_order_of_exact_standing_def parked_new_def parked_get_order_def stored_key_def storage_take_def remove_order_from_id_def
  lop_remove_order_def limit_remove_order_def lop_lookup_None pools_get_def parkeds_get_def pending_defs
  add_new_searcher_order_def add_searcher_order_def searcher_fresh_def searcher_new_def map_inner_def

theorem storage_refines_map_witness:
  "\<exists>rs s. pool_run (map_add_keyed storage_key) map_remove
      [AddOp (sample_order (sample_standing 10) Limit 10 5), AddOp (sample_order (TOB sample_tob) Searcher 11 6),
       RemoveOp (Limit, 7, 10)] Map.empty = (rs, storage_get s) \<and>
     rs = [Some (sample_order (sample_standing 10) Limit 10 5)]"
proof -
  let ?ops = "[AddOp (sample_order (sample_standing 10) Limit 10 5), AddOp (sample_order (TOB sample_tob) Searcher 11 6),
       RemoveOp (Limit, 7, 10)]"
  have fr: "fresh_run (storage_fresh sample_env) (storage_add sample_env) storage_take ?ops (storage_new (with_pool_ids [7]))"
    by (simp add: storage_run_defs)
  obtain rs s where run: "pool_run (storage_add sample_env) storage_take ?ops (storage_new (with_pool_ids [7])) = (rs, s)"
    by fastforce
  have "rs = [Some (sample_order (sample_standing 10) Limit 10 5)]"
    using run by (simp add: storage_run_defs)
  with storage_refines_map [OF fr run] show ?thesis by blast
qed

end
