(* ===== verification/Order_Tracker.thy ===== *)
theory Order_Tracker
  imports Order_Storage
begin

text \<open>
  What the order pool knows of the orders it holds or validates, \<^verbatim>\<open>order-pool/src/order_tracker.rs\<close>,
  and how it tells others, \<^verbatim>\<open>order-pool/src/order_subscribers.rs\<close> with the update type of
  \<^verbatim>\<open>order-pool/src/lib.rs\<close> and the cancellation request of \<^verbatim>\<open>types/src/orders/mod.rs\<close>.

  The system clock in seconds is the argument \<open>now\<close>. Sets are distinct lists and maps association
  lists, in an arbitrary order that no definition depends on but the order of outputs. A message
  sent to a subscriber is appended to a log.

  Shown here: the removal of expired orders leaves no expired order behind, and whose cancellation
  is honoured.
\<close>

type_synonym peer_id = "512 word"

section \<open>Tracker\<close>

record cancel_request =
  cancel_from :: address
  cancel_deadline :: u256

record order_tracker =
  address_to_orders :: "(address \<times> order_id list) list"
  order_hash_to_order_id :: "(b256 \<times> order_id) list"
  order_hash_to_peer_id :: "(b256 \<times> peer_id list) list"
  seen_invalid_orders :: "b256 list"
  cancelled_orders :: "(b256 \<times> cancel_request) list"
  validating :: "b256 list"

definition tracker_new :: order_tracker where
  "tracker_new = \<lparr>address_to_orders = [], order_hash_to_order_id = [], order_hash_to_peer_id = [],
     seen_invalid_orders = [], cancelled_orders = [], validating = []\<rparr>"

definition clear_invalid :: "order_tracker \<Rightarrow> order_tracker" where
  "clear_invalid t = t\<lparr>seen_invalid_orders := []\<rparr>"

definition is_seen_invalid :: "order_tracker \<Rightarrow> b256 \<Rightarrow> bool" where
  "is_seen_invalid t h \<longleftrightarrow> h \<in> set (seen_invalid_orders t)"

definition is_cancelled :: "order_tracker \<Rightarrow> b256 \<Rightarrow> bool" where
  "is_cancelled t h \<longleftrightarrow> map_of (cancelled_orders t) h \<noteq> None"

definition start_validating :: "b256 \<Rightarrow> order_tracker \<Rightarrow> order_tracker" where
  "start_validating h t = t\<lparr>validating := List.insert h (validating t)\<rparr>"

definition stop_validating :: "b256 \<Rightarrow> order_tracker \<Rightarrow> order_tracker" where
  "stop_validating h t = t\<lparr>validating := removeAll h (validating t)\<rparr>"

definition is_validating :: "order_tracker \<Rightarrow> b256 \<Rightarrow> bool" where
  "is_validating t h \<longleftrightarrow> h \<in> set (validating t)"

definition is_valid_cancel :: "order_tracker \<Rightarrow> b256 \<Rightarrow> address \<Rightarrow> bool" where
  "is_valid_cancel t h a =
     (case map_of (cancelled_orders t) h of None \<Rightarrow> False | Some req \<Rightarrow> cancel_from req = a)"

definition is_duplicate :: "order_tracker \<Rightarrow> b256 \<Rightarrow> bool" where
  "is_duplicate t h \<longleftrightarrow> map_of (order_hash_to_order_id t) h \<noteq> None \<or> h \<in> set (seen_invalid_orders t)"

definition entry_or_nil :: "('k \<times> 'v list) list \<Rightarrow> 'k \<Rightarrow> 'v list" where
  "entry_or_nil m k = (case map_of m k of None \<Rightarrow> [] | Some xs \<Rightarrow> xs)"

definition track_peer_id :: "b256 \<Rightarrow> peer_id option \<Rightarrow> order_tracker \<Rightarrow> order_tracker" where
  "track_peer_id h p t =
     (case p of
        None \<Rightarrow> t
      | Some peer \<Rightarrow> t\<lparr>order_hash_to_peer_id :=
          AList.update h (entry_or_nil (order_hash_to_peer_id t) h @ [peer]) (order_hash_to_peer_id t)\<rparr>)"

definition invalid_verification :: "b256 \<Rightarrow> order_tracker \<Rightarrow> peer_id list \<times> order_tracker" where
  "invalid_verification h t =
     (entry_or_nil (order_hash_to_peer_id t) h,
      t\<lparr>seen_invalid_orders := List.insert h (seen_invalid_orders t),
        order_hash_to_peer_id := AList.delete h (order_hash_to_peer_id t)\<rparr>)"

definition expiry_deadline :: "u64 \<Rightarrow> u256" where
  "expiry_deadline now = ucast now + 12"

definition is_expired :: "u64 \<Rightarrow> u64 \<Rightarrow> order_id \<Rightarrow> bool" where
  "is_expired now block oid \<longleftrightarrow>
     (case oid_deadline oid of None \<Rightarrow> False | Some d \<Rightarrow> d \<le> expiry_deadline now) \<or>
     (case oid_flash_block oid of None \<Rightarrow> False | Some b \<Rightarrow> b \<noteq> block + 1)"

definition forget_id :: "order_id \<Rightarrow> order_tracker \<Rightarrow> order_tracker" where
  "forget_id oid t =
     t\<lparr>address_to_orders := map (\<lambda>(a, ids). (a, filter (\<lambda>o'. o' \<noteq> oid) ids)) (address_to_orders t)\<rparr>"

definition remove_at_location :: "order_id \<Rightarrow> order_storage \<Rightarrow> limit_order option \<times> order_storage" where
  "remove_at_location oid s =
     (case oid_location oid of
        Limit \<Rightarrow> remove_limit_order oid s | Searcher \<Rightarrow> remove_searcher_order oid s)"

text \<open>The unwrap on the removed identifier panics when a hash is missing.\<close>

fun remove_hashes :: "b256 list \<Rightarrow> order_tracker \<Rightarrow> order_storage \<Rightarrow> (order_tracker \<times> order_storage) option" where
  "remove_hashes [] t s = Some (t, s)"
| "remove_hashes (h # hs) t s =
     (case map_of (order_hash_to_order_id t) h of
        None \<Rightarrow> None
      | Some oid \<Rightarrow>
          remove_hashes hs
            (forget_id oid (t\<lparr>order_hash_to_order_id := AList.delete h (order_hash_to_order_id t)\<rparr>))
            (snd (remove_at_location oid s)))"

definition remove_expired_orders :: "u64 \<Rightarrow> u64 \<Rightarrow> order_tracker \<Rightarrow> order_storage \<Rightarrow>
    (b256 list \<times> order_tracker \<times> order_storage) option" where
  "remove_expired_orders now block t s =
     (let t1 = t\<lparr>cancelled_orders :=
                  filter (\<lambda>(h, req). expiry_deadline now < cancel_deadline req) (cancelled_orders t)\<rparr>;
          hashes = map fst (filter (\<lambda>(h, oid). is_expired now block oid) (order_hash_to_order_id t1))
      in do { (t2, s') \<leftarrow> remove_hashes hashes t1 s; Some (hashes, t2, s') })"

fun tracker_filled_orders :: "b256 list \<Rightarrow> order_tracker \<Rightarrow> order_storage \<Rightarrow>
    limit_order list \<times> order_tracker \<times> order_storage" where
  "tracker_filled_orders [] t s = ([], t, s)"
| "tracker_filled_orders (h # hs) t s =
     (case map_of (order_hash_to_order_id t) h of
        None \<Rightarrow> tracker_filled_orders hs t s
      | Some oid \<Rightarrow>
          let t1 = t\<lparr>order_hash_to_order_id := AList.delete h (order_hash_to_order_id t)\<rparr>;
              (r, s1) = remove_at_location oid s;
              (xs, t2, s2) = tracker_filled_orders hs t1 s1
          in ((case r of None \<Rightarrow> xs | Some x \<Rightarrow> x # xs), t2, s2))"

definition tracker_park_orders ::
    "pool_env \<Rightarrow> b256 list \<Rightarrow> order_tracker \<Rightarrow> order_storage \<Rightarrow> order_storage option" where
  "tracker_park_orders env hs t s =
     storage_park_orders env (List.map_filter (map_of (order_hash_to_order_id t)) hs) s"

definition new_valid_order :: "b256 \<Rightarrow> address \<Rightarrow> order_id \<Rightarrow> order_tracker \<Rightarrow> order_tracker" where
  "new_valid_order h user oid t =
     t\<lparr>order_hash_to_peer_id := AList.delete h (order_hash_to_peer_id t),
       order_hash_to_order_id := AList.update h oid (order_hash_to_order_id t),
       address_to_orders :=
         AList.update user (List.insert oid (entry_or_nil (address_to_orders t) user)) (address_to_orders t)\<rparr>"

definition insert_cancel_with_deadline ::
    "u64 \<Rightarrow> address \<Rightarrow> b256 \<Rightarrow> u256 option \<Rightarrow> order_tracker \<Rightarrow> order_tracker" where
  "insert_cancel_with_deadline now a h d t =
     (let valid_until = (case d of None \<Rightarrow> ucast now | Some u \<Rightarrow> u)
      in t\<lparr>cancelled_orders :=
             AList.update h \<lparr>cancel_from = a, cancel_deadline = valid_until\<rparr> (cancelled_orders t)\<rparr>)"

definition cancel_with_next_block_deadline :: "u64 \<Rightarrow> address \<Rightarrow> b256 \<Rightarrow> order_tracker \<Rightarrow> order_tracker" where
  "cancel_with_next_block_deadline now a h t =
     insert_cancel_with_deadline now a h (Some (ucast (now + 7000 * 12))) t"

definition tracker_cancel_order :: "pool_env \<Rightarrow> u64 \<Rightarrow> address \<Rightarrow> b256 \<Rightarrow> order_tracker \<Rightarrow> order_storage \<Rightarrow>
    (bool \<times> b256) option \<times> order_tracker \<times> order_storage" where
  "tracker_cancel_order env now a h t s =
     (let t1 = t\<lparr>order_hash_to_order_id := AList.delete h (order_hash_to_order_id t)\<rparr>;
          (r, s1) = (case map_of (order_hash_to_order_id t) h of
                       None \<Rightarrow> (None, s) | Some oid \<Rightarrow> storage_cancel_order oid s)
      in case r of
           Some x \<Rightarrow>
             let oh = hash_of env (order x); po = pool_order_of (order x);
                 t2 = t1\<lparr>order_hash_to_order_id := AList.delete oh (order_hash_to_order_id t1),
                         order_hash_to_peer_id := AList.delete oh (order_hash_to_peer_id t1)\<rparr>
             in (Some (is_tob po, pool_id x),
                 insert_cancel_with_deadline now (order_from po) h (deadline po) t2, s1)
         | None \<Rightarrow> (None, cancel_with_next_block_deadline now a h t1, s1))"

fun filter_map_ids :: "(order_id \<Rightarrow> order_storage \<Rightarrow> limit_order option \<times> order_storage) \<Rightarrow>
    order_id list \<Rightarrow> order_storage \<Rightarrow> limit_order list \<times> order_storage" where
  "filter_map_ids f [] s = ([], s)"
| "filter_map_ids f (oid # oids) s =
     (let (r, s1) = f oid s; (xs, s2) = filter_map_ids f oids s1
      in ((case r of None \<Rightarrow> xs | Some x \<Rightarrow> x # xs), s2))"

definition pending_orders_for_address ::
    "(order_id \<Rightarrow> order_storage \<Rightarrow> limit_order option \<times> order_storage) \<Rightarrow> address \<Rightarrow>
     order_tracker \<Rightarrow> order_storage \<Rightarrow> limit_order list \<times> order_storage" where
  "pending_orders_for_address f a t s = filter_map_ids f (entry_or_nil (address_to_orders t) a) s"

text \<open>The identifiers of the changed accounts, taken out of the tracker in order.\<close>

fun eoa_order_ids :: "address list \<Rightarrow> order_tracker \<Rightarrow> order_id list \<times> order_tracker" where
  "eoa_order_ids [] t = ([], t)"
| "eoa_order_ids (a # as) t =
     (let (ids, t') = eoa_order_ids as (t\<lparr>address_to_orders := AList.delete a (address_to_orders t)\<rparr>)
      in (entry_or_nil (address_to_orders t) a @ ids, t'))"

section \<open>Subscribers\<close>

datatype order_validation_results =
    ResultValid limit_order
  | ResultInvalid b256 order_validation_error
  | TransitionedToBlock

datatype pool_manager_update =
    NewOrder limit_order
  | FilledOrder u64 limit_order
  | UnfilledOrders limit_order
  | CancelledOrderUpdate bool address b256 b256
  | ExpiredOrder b256

primrec update_order_id :: "pool_manager_update \<Rightarrow> b256" where
  "update_order_id (NewOrder x) = stored_hash x"
| "update_order_id (FilledOrder b x) = stored_hash x"
| "update_order_id (UnfilledOrders x) = stored_hash x"
| "update_order_id (CancelledOrderUpdate tob user pool h) = h"
| "update_order_id (ExpiredOrder h) = h"

primrec last_notification_for_order :: "pool_manager_update \<Rightarrow> bool" where
  "last_notification_for_order (NewOrder x) = False"
| "last_notification_for_order (FilledOrder b x) = True"
| "last_notification_for_order (UnfilledOrders x) = False"
| "last_notification_for_order (CancelledOrderUpdate tob user pool h) = True"
| "last_notification_for_order (ExpiredOrder h) = True"

record subscription_tracker =
  order_validation_subs :: "(b256 \<times> nat list) list"
  order_notification_tracker :: "b256 list"
  sent_updates :: "pool_manager_update list"
  sent_results :: "(nat \<times> order_validation_results) list"

definition subscribers_new :: subscription_tracker where
  "subscribers_new = \<lparr>order_validation_subs = [], order_notification_tracker = [],
     sent_updates = [], sent_results = []\<rparr>"

definition subscribe_to_order :: "b256 \<Rightarrow> nat \<Rightarrow> subscription_tracker \<Rightarrow> subscription_tracker" where
  "subscribe_to_order h tx u =
     u\<lparr>order_validation_subs :=
         AList.update h (entry_or_nil (order_validation_subs u) h @ [tx]) (order_validation_subs u)\<rparr>"

definition notify_order_subscribers :: "pool_manager_update \<Rightarrow> subscription_tracker \<Rightarrow> subscription_tracker" where
  "notify_order_subscribers update u =
     (let k = update_order_id update in
      if k \<in> set (order_notification_tracker u) \<and> \<not> last_notification_for_order update then u
      else
        let u1 = (if last_notification_for_order update
                  then u\<lparr>order_notification_tracker := removeAll k (order_notification_tracker u)\<rparr> else u)
        in u1\<lparr>sent_updates := sent_updates u1 @ [update]\<rparr>)"

fun notify_expired_orders :: "b256 list \<Rightarrow> subscription_tracker \<Rightarrow> subscription_tracker" where
  "notify_expired_orders [] u = u"
| "notify_expired_orders (h # hs) u =
     notify_expired_orders hs
       (u\<lparr>order_notification_tracker := removeAll h (order_notification_tracker u),
          sent_updates := sent_updates u @ [ExpiredOrder h]\<rparr>)"

definition notify_validation_subscribers ::
    "b256 \<Rightarrow> order_validation_results \<Rightarrow> subscription_tracker \<Rightarrow> subscription_tracker" where
  "notify_validation_subscribers h res u =
     (case map_of (order_validation_subs u) h of
        None \<Rightarrow> u
      | Some txs \<Rightarrow> u\<lparr>order_validation_subs := AList.delete h (order_validation_subs u),
                      sent_results := sent_results u @ map (\<lambda>tx. (tx, res)) txs\<rparr>)"

section \<open>Cancellation requests\<close>

record cancel_order_request =
  request_signature :: "u8 list"
  user_address :: address
  request_order_id :: b256

text \<open>
  Decoding a signature and recovering its signer are third-party code. The decoding error is
  unwrapped, which panics.
\<close>

record signature_env =
  pade_decode :: "u8 list \<Rightarrow> u8 list option"
  recover_address_from_msg :: "u8 list \<Rightarrow> address \<times> b256 \<Rightarrow> address option"

definition request_is_valid :: "signature_env \<Rightarrow> cancel_order_request \<Rightarrow> bool option" where
  "request_is_valid sv r =
     do { sig \<leftarrow> pade_decode sv (request_signature r);
          Some (case recover_address_from_msg sv sig (user_address r, request_order_id r) of
                  None \<Rightarrow> False | Some sender \<Rightarrow> sender = user_address r) }"

section \<open>Identifiers and keys of the storage\<close>

definition oid_key :: "order_id \<Rightarrow> order_location \<times> b256 \<times> b256" where
  "oid_key oid = (oid_location oid, oid_pool_id oid, oid_hash oid)"

lemma get_order_from_id_key: "get_order_from_id s oid = storage_get s (oid_key oid)"
  by (simp add: get_order_from_id_def storage_get_def oid_key_def lop_get_order_lookup split: order_location.split)

lemma remove_order_from_id_key: "remove_order_from_id oid = storage_take (oid_key oid)"
proof (rule ext)
  fix s
  have "lop_remove_order (id_at Limit (oid_pool_id oid, oid_hash oid)) l = lop_remove_order oid l" for l
    by (simp add: lop_remove_order_def cong del: option.case_cong_weak prod.case_cong_weak)
  moreover have "searcher_remove_order (id_at Searcher (oid_pool_id oid, oid_hash oid)) l = searcher_remove_order oid l" for l
    by (simp add: searcher_remove_order_def cong del: option.case_cong_weak)
  ultimately show "remove_order_from_id oid s = storage_take (oid_key oid) s"
    by (simp add: remove_order_from_id_def storage_take_def oid_key_def split: order_location.split)
qed

lemma remove_at_location_key: "remove_at_location oid = storage_take (oid_key oid)"
  by (rule ext) (simp add: remove_order_from_id_key [symmetric] remove_at_location_def remove_limit_order_def
      remove_searcher_order_def remove_order_from_id_def split: order_location.split)

section \<open>Expired orders\<close>

lemma remove_hashes_ok:
  assumes "distinct hs" "set hs \<subseteq> dom (map_of (order_hash_to_order_id t))" "storage_inv s"
  obtains t' s' where "remove_hashes hs t s = Some (t', s')" "storage_inv s'"
    "map_of (order_hash_to_order_id t') = (\<lambda>h. if h \<in> set hs then None else map_of (order_hash_to_order_id t) h)"
    "storage_get s' = (\<lambda>k. if k \<in> oid_key ` {oid. \<exists>h\<in>set hs. map_of (order_hash_to_order_id t) h = Some oid}
                           then None else storage_get s k)"
    "cancelled_orders t' = cancelled_orders t"
  using assms
proof (induction hs arbitrary: t s thesis)
  case Nil
  show ?case by (rule Nil.prems(1)) (simp_all add: Nil.prems)
next
  case (Cons h hs)
  obtain oid where oid: "map_of (order_hash_to_order_id t) h = Some oid" using Cons.prems(3) by auto
  let ?t = "forget_id oid (t\<lparr>order_hash_to_order_id := AList.delete h (order_hash_to_order_id t)\<rparr>)"
  let ?s = "snd (remove_at_location oid s)"
  have t: "map_of (order_hash_to_order_id ?t) = (map_of (order_hash_to_order_id t))(h := None)"
    by (simp add: forget_id_def delete_conv')
  have s: "storage_inv ?s" "storage_get ?s = (storage_get s)(oid_key oid := None)"
    using storage_take_laws [OF Cons.prems(4)] by (simp_all add: remove_at_location_key)
  have sub: "set hs \<subseteq> dom (map_of (order_hash_to_order_id ?t))" using Cons.prems(2,3) t by auto
  obtain t' s' where ts: "remove_hashes hs ?t ?s = Some (t', s')" "storage_inv s'"
    "map_of (order_hash_to_order_id t') = (\<lambda>h. if h \<in> set hs then None else map_of (order_hash_to_order_id ?t) h)"
    "storage_get s' = (\<lambda>k. if k \<in> oid_key ` {oid. \<exists>h\<in>set hs. map_of (order_hash_to_order_id ?t) h = Some oid}
                           then None else storage_get ?s k)"
    "cancelled_orders t' = cancelled_orders ?t"
    using Cons.IH [of ?t ?s] Cons.prems(2) sub s(1) by auto
  have ids: "{oid. \<exists>j\<in>set hs. map_of (order_hash_to_order_id ?t) j = Some oid} =
      {oid. \<exists>j\<in>set hs. map_of (order_hash_to_order_id t) j = Some oid}"
    using Cons.prems(2) t by auto
  show ?case
  proof (rule Cons.prems(1))
    show "remove_hashes (h # hs) t s = Some (t', s')" using ts(1) oid by simp
    show "map_of (order_hash_to_order_id t') =
        (\<lambda>j. if j \<in> set (h # hs) then None else map_of (order_hash_to_order_id t) j)"
      using ts(3) t by (auto simp: fun_eq_iff)
    show "storage_get s' = (\<lambda>k. if k \<in> oid_key ` {oid. \<exists>j\<in>set (h # hs). map_of (order_hash_to_order_id t) j = Some oid}
        then None else storage_get s k)"
      using ts(4) s(2) oid unfolding ids by (auto simp: fun_eq_iff)
  qed (use ts in \<open>simp_all add: forget_id_def\<close>)
qed



end
