(* ===== verification/Order_Indexer.thy ===== *)
theory Order_Indexer
  imports Order_Tracker "HOL-Library.Multiset"
begin

text \<open>
  The pool's side of order validation, \<^verbatim>\<open>order-pool/src/validator.rs\<close>, and the indexer that ties
  storage, tracker, validator and subscribers together, \<^verbatim>\<open>order-pool/src/order_indexer.rs\<close>.

  A validation in flight is the order it validates. The asynchronous runtime enters through the
  argument of a poll: which validation, if any, has finished and with which result, and whether
  the validator has acknowledged the new block. The calls made on the validation handle are
  appended to a log.

  Shown here: the validator goes through its four states in a cycle and loses no order on the
  way, who can cancel whose orders, and what a block transition leaves in the pool.
\<close>

section \<open>Validator\<close>

datatype order_origin = Local | External | Private

type_synonym validation = "order_origin \<times> all_orders"

datatype validator_call =
    CancelCall address b256
  | NewBlockCall u64 "b256 list" "address list"

datatype order_validator =
    ClearingForNewBlock u64 "validation list" "b256 list" "address list" "validation list"
  | WaitingForStorageCleanup "validation list"
  | InformState "validation list"
  | RegularProcessing "validation list"

datatype order_validator_res =
    ValidatedOrder order_validation_results
  | EnsureClearForTransition u64 "b256 list" "address list"
  | TransitionComplete

datatype 'a poll = PollReady 'a | PollPending

definition validator_new :: order_validator where
  "validator_new = RegularProcessing []"

primrec is_transitioning :: "order_validator \<Rightarrow> bool" where
  "is_transitioning (ClearingForNewBlock b w c r f) = True"
| "is_transitioning (WaitingForStorageCleanup w) = False"
| "is_transitioning (InformState w) = True"
| "is_transitioning (RegularProcessing f) = False"

text \<open>None is the failed assertion or the unreachable branch.\<close>

fun on_new_block :: "u64 \<Rightarrow> b256 list \<Rightarrow> address list \<Rightarrow> order_validator \<Rightarrow> order_validator option" where
  "on_new_block b completed addrs v =
     (if is_transitioning v then None
      else case v of
             RegularProcessing f \<Rightarrow> Some (ClearingForNewBlock b [] completed addrs f)
           | _ \<Rightarrow> None)"

text \<open>In any other state the call is ignored. The future makes the call on the handle when polled.\<close>

fun notify_validation_on_changes ::
    "u64 \<Rightarrow> b256 list \<Rightarrow> address list \<Rightarrow> order_validator \<Rightarrow> order_validator \<times> validator_call list" where
  "notify_validation_on_changes b hs addrs (WaitingForStorageCleanup w) = (InformState w, [NewBlockCall b hs addrs])"
| "notify_validation_on_changes b hs addrs v = (v, [])"

primrec validate_order :: "order_origin \<Rightarrow> all_orders \<Rightarrow> order_validator \<Rightarrow> order_validator" where
  "validate_order origin x (RegularProcessing f) = RegularProcessing (f @ [(origin, x)])"
| "validate_order origin x (WaitingForStorageCleanup w) = WaitingForStorageCleanup (w @ [(origin, x)])"
| "validate_order origin x (ClearingForNewBlock b w c r f) = ClearingForNewBlock b (w @ [(origin, x)]) c r f"
| "validate_order origin x (InformState w) = InformState (w @ [(origin, x)])"

definition handle_inform :: "validation list \<Rightarrow> bool \<Rightarrow> order_validator option" where
  "handle_inform w ready =
     (if ready then Some (fold (\<lambda>(origin, x) v. validate_order origin x v) w (RegularProcessing [])) else None)"

text \<open>An empty set of futures is a finished stream.\<close>

definition poll_futures :: "(nat \<times> order_validation_results) option \<Rightarrow> validation list \<Rightarrow>
    order_validation_results option poll \<times> validation list" where
  "poll_futures ready f =
     (if f = [] then (PollReady None, f)
      else case ready of
             Some (i, res) \<Rightarrow> if i < length f then (PollReady (Some res), take i f @ drop (Suc i) f)
                              else (PollPending, f)
           | None \<Rightarrow> (PollPending, f))"

record poll_event =
  finished :: "(nat \<times> order_validation_results) option"
  informed :: bool

fun validator_poll_next :: "poll_event \<Rightarrow> order_validator \<Rightarrow> order_validator_res option poll \<times> order_validator" where
  "validator_poll_next ev (ClearingForNewBlock b w c r f) =
     (case poll_futures (finished ev) f of
        (PollReady (Some res), f') \<Rightarrow> (PollReady (Some (ValidatedOrder res)), ClearingForNewBlock b w c r f')
      | (_, f') \<Rightarrow>
          if f' \<noteq> [] then (PollPending, ClearingForNewBlock b w c r f')
          else (PollReady (Some (EnsureClearForTransition b c r)), WaitingForStorageCleanup w))"
| "validator_poll_next ev (WaitingForStorageCleanup w) = (PollPending, WaitingForStorageCleanup w)"
| "validator_poll_next ev (InformState w) =
     (case handle_inform w (informed ev) of
        None \<Rightarrow> (PollPending, InformState w)
      | Some v \<Rightarrow> (PollReady (Some TransitionComplete), v))"
| "validator_poll_next ev (RegularProcessing f) =
     (case poll_futures (finished ev) f of
        (PollReady res, f') \<Rightarrow> (PollReady (map_option ValidatedOrder res), RegularProcessing f')
      | (PollPending, f') \<Rightarrow> (PollPending, RegularProcessing f'))"

section \<open>Indexer\<close>

record indexer_env =
  ie_pool :: pool_env
  ie_sig :: signature_env

record order_indexer =
  order_storage :: order_storage
  block_number :: u64
  order_tracker :: order_tracker
  ix_validator :: order_validator
  subscribers :: subscription_tracker
  handle_calls :: "validator_call list"

datatype pool_inner_event =
    Propagation all_orders
  | BadOrderMessages "peer_id list"
  | HasTransitionedToNewBlock u64
  | NoEvent

definition indexer_new :: "order_storage \<Rightarrow> u64 \<Rightarrow> order_indexer" where
  "indexer_new s b = \<lparr>order_storage = s, block_number = b, order_tracker = tracker_new,
     ix_validator = validator_new, subscribers = subscribers_new, handle_calls = []\<rparr>"

definition indexer_pending_orders_for_address :: "address \<Rightarrow> order_indexer \<Rightarrow> limit_order list" where
  "indexer_pending_orders_for_address a ix =
     fst (pending_orders_for_address (\<lambda>oid s. (get_order_from_id s oid, s)) a (order_tracker ix) (order_storage ix))"

definition orders_by_pool :: "b256 \<Rightarrow> order_location \<Rightarrow> order_indexer \<Rightarrow> all_orders list" where
  "orders_by_pool k loc ix = get_orders_by_pool (order_storage ix) k loc"

definition indexer_order_status :: "b256 \<Rightarrow> order_indexer \<Rightarrow> order_status option option" where
  "indexer_order_status h ix = fetch_status_of_order (order_storage ix) h"

definition indexer_remove_pool :: "b256 \<Rightarrow> order_indexer \<Rightarrow> order_indexer" where
  "indexer_remove_pool k ix = ix\<lparr>order_storage := storage_remove_pool k (order_storage ix)\<rparr>"

text \<open>The parked orders of the account are taken out and validated again.\<close>

definition revalidate_parked :: "pool_env \<Rightarrow> limit_order \<Rightarrow> order_indexer \<Rightarrow> order_indexer" where
  "revalidate_parked env x ix =
     ix\<lparr>handle_calls := handle_calls ix @ [CancelCall (order_from (pool_order_of (order x))) (hash_of env (order x))],
        ix_validator := validate_order Local (order x) (ix_validator ix)\<rparr>"

definition indexer_cancel_order :: "indexer_env \<Rightarrow> u64 \<Rightarrow> cancel_order_request \<Rightarrow> order_indexer \<Rightarrow>
    (bool \<times> order_indexer) option" where
  "indexer_cancel_order env now req ix =
     (case request_is_valid (ie_sig env) req of
        None \<Rightarrow> None
      | Some valid \<Rightarrow>
          if \<not> valid then Some (False, ix)
          else if is_seen_invalid (order_tracker ix) (request_order_id req) \<or>
                  is_cancelled (order_tracker ix) (request_order_id req) then Some (True, ix)
          else
            let ix1 = ix\<lparr>handle_calls := handle_calls ix @ [CancelCall (user_address req) (request_order_id req)]\<rparr>;
                (r, t, s) = tracker_cancel_order (ie_pool env) now (user_address req) (request_order_id req)
                              (order_tracker ix1) (order_storage ix1)
            in (case r of
                  None \<Rightarrow> Some (False, ix1\<lparr>order_tracker := t, order_storage := s\<rparr>)
                | Some (tob, pool) \<Rightarrow>
                    let (xs, s') = pending_orders_for_address storage_remove_parked_order (user_address req) t s;
                        ix2 = fold (revalidate_parked (ie_pool env)) xs (ix1\<lparr>order_tracker := t, order_storage := s'\<rparr>)
                    in Some (True, ix2\<lparr>subscribers := notify_order_subscribers
                           (CancelledOrderUpdate tob (user_address req) pool (request_order_id req))
                           (subscribers ix2)\<rparr>)))"

definition new_order :: "pool_env \<Rightarrow> peer_id option \<Rightarrow> order_origin \<Rightarrow> all_orders \<Rightarrow> nat option \<Rightarrow>
    order_indexer \<Rightarrow> order_indexer" where
  "new_order env peer origin x sub ix =
     (let h = hash_of env x;
          ix1 = (case sub of None \<Rightarrow> ix
                 | Some tx \<Rightarrow> ix\<lparr>subscribers := subscribe_to_order h tx (subscribers ix)\<rparr>)
      in if is_valid_cancel (order_tracker ix1) h (order_from (pool_order_of x)) then
           ix1\<lparr>subscribers := notify_validation_subscribers h (ResultInvalid h CancelledOrder) (subscribers ix1)\<rparr>
         else if is_duplicate (order_tracker ix1) h then
           ix1\<lparr>subscribers := notify_validation_subscribers h (ResultInvalid h DuplicateOrder) (subscribers ix1)\<rparr>
         else
           let ix2 = ix1\<lparr>order_tracker := track_peer_id h peer (order_tracker ix1)\<rparr>
           in if is_validating (order_tracker ix2) h then ix2
              else ix2\<lparr>order_tracker := start_validating h (order_tracker ix2),
                       ix_validator := validate_order origin x (ix_validator ix2)\<rparr>)"

definition new_rpc_order :: "pool_env \<Rightarrow> order_origin \<Rightarrow> all_orders \<Rightarrow> nat \<Rightarrow> order_indexer \<Rightarrow> order_indexer" where
  "new_rpc_order env origin x tx ix = new_order env None origin x (Some tx) ix"

definition new_network_order ::
    "pool_env \<Rightarrow> peer_id \<Rightarrow> order_origin \<Rightarrow> all_orders \<Rightarrow> order_indexer \<Rightarrow> order_indexer" where
  "new_network_order env peer origin x ix = new_order env (Some peer) origin x None ix"

fun revalidate_ids :: "order_id list \<Rightarrow> order_storage \<Rightarrow> order_validator \<Rightarrow> order_storage \<times> order_validator" where
  "revalidate_ids [] s v = (s, v)"
| "revalidate_ids (oid # oids) s v =
     (case remove_order_from_id oid s of
        (None, s1) \<Rightarrow> revalidate_ids oids s1 v
      | (Some x, s1) \<Rightarrow> revalidate_ids oids s1 (validate_order Local (order x) v))"

definition eoa_state_change :: "address list \<Rightarrow> order_indexer \<Rightarrow> order_indexer" where
  "eoa_state_change eoas ix =
     (let (ids, t) = eoa_order_ids eoas (order_tracker ix);
          (s, v) = revalidate_ids ids (order_storage ix) (ix_validator ix)
      in ix\<lparr>order_tracker := t, order_storage := s, ix_validator := v\<rparr>)"

definition indexer_finalized_block :: "u64 \<Rightarrow> order_indexer \<Rightarrow> order_indexer" where
  "indexer_finalized_block b ix = ix\<lparr>order_storage := storage_finalized_block b (order_storage ix)\<rparr>"

definition indexer_reorg :: "b256 list \<Rightarrow> order_indexer \<Rightarrow> order_indexer" where
  "indexer_reorg hs ix =
     (let (xs, s) = storage_reorg hs (order_storage ix)
      in fold (\<lambda>x ix. ix\<lparr>subscribers := notify_order_subscribers (UnfilledOrders x) (subscribers ix),
                        ix_validator := validate_order Local (order x) (ix_validator ix)\<rparr>)
           xs (ix\<lparr>order_storage := s\<rparr>))"

definition indexer_filled_orders :: "pool_env \<Rightarrow> u64 \<Rightarrow> b256 list \<Rightarrow> order_indexer \<Rightarrow> order_indexer option" where
  "indexer_filled_orders env b hs ix =
     (if hs = [] then Some ix
      else
        let (xs, t, s) = tracker_filled_orders hs (order_tracker ix) (order_storage ix);
            u = fold (\<lambda>x. notify_order_subscribers (FilledOrder b x)) xs (subscribers ix)
        in do { s' \<leftarrow> add_filled_orders env b xs s;
                Some (ix\<lparr>order_tracker := t, order_storage := s', subscribers := u\<rparr>) })"

text \<open>A failure to insert is logged and otherwise ignored; None is a panic.\<close>

fun handle_validated_order :: "pool_env \<Rightarrow> order_validation_results \<Rightarrow> order_indexer \<Rightarrow>
    (pool_inner_event \<times> order_indexer) option" where
  "handle_validated_order env (ResultValid x) ix =
     (let h = hash_of env (order x);
          ix1 = ix\<lparr>order_tracker := stop_validating h (order_tracker ix)\<rparr>
      in if valid_block x \<noteq> block_number ix1 then
           let u = notify_validation_subscribers h (ResultInvalid h InvalidOrderAtBlock) (subscribers ix1);
               (peers, t) = invalid_verification h (order_tracker ix1)
           in Some (BadOrderMessages peers, ix1\<lparr>subscribers := u, order_tracker := t\<rparr>)
         else
           let u = notify_order_subscribers (NewOrder x) (subscribers ix1);
               u' = (case currently_invalid x of
                       Some e \<Rightarrow> notify_validation_subscribers h (ResultInvalid h (StateError e)) u
                     | None \<Rightarrow> notify_validation_subscribers h (ResultValid x) u);
               t = new_valid_order h (order_from (pool_order_of (order x))) (order_id x) (order_tracker ix1)
           in do { s \<leftarrow> tracker_park_orders env (invalidates x) t (order_storage ix1);
                   (e, s') \<leftarrow> insert_order env x s;
                   Some (Propagation (order x),
                         ix1\<lparr>subscribers := u', order_tracker := t, order_storage := s'\<rparr>) })"
| "handle_validated_order env (ResultInvalid h e) ix =
     (let t = stop_validating h (order_tracker ix);
          u = notify_validation_subscribers h (ResultInvalid h e) (subscribers ix);
          s = storage_remove_invalid_order h (order_storage ix);
          (peers, t') = invalid_verification h t
      in Some (BadOrderMessages peers, ix\<lparr>order_tracker := t', subscribers := u, order_storage := s\<rparr>))"
| "handle_validated_order env TransitionedToBlock ix = Some (NoEvent, ix)"

definition indexer_get_all_orders :: "order_indexer \<Rightarrow> (limit_order list \<times> searcher_order list) option" where
  "indexer_get_all_orders ix = storage_get_all_orders (order_storage ix)"

definition indexer_new_pool :: "b256 \<Rightarrow> order_indexer \<Rightarrow> order_indexer option" where
  "indexer_new_pool k ix = do { s \<leftarrow> storage_new_pool k (order_storage ix); Some (ix\<lparr>order_storage := s\<rparr>) }"

definition start_new_block_processing ::
    "u64 \<Rightarrow> b256 list \<Rightarrow> address list \<Rightarrow> order_indexer \<Rightarrow> order_indexer option" where
  "start_new_block_processing b completed addrs ix =
     do { v \<leftarrow> on_new_block b completed addrs (ix_validator ix); Some (ix\<lparr>ix_validator := v\<rparr>) }"

definition finish_new_block_processing :: "pool_env \<Rightarrow> u64 \<Rightarrow> u64 \<Rightarrow> b256 list \<Rightarrow> address list \<Rightarrow>
    order_indexer \<Rightarrow> order_indexer option" where
  "finish_new_block_processing env now b completed addrs ix =
     do { let ix1 = eoa_state_change addrs
                (ix\<lparr>block_number := b, order_tracker := clear_invalid (order_tracker ix)\<rparr>);
          ix2 \<leftarrow> indexer_filled_orders env b completed ix1;
          (expired, t, s) \<leftarrow> remove_expired_orders now b (order_tracker ix2) (order_storage ix2);
          let (v, calls) = notify_validation_on_changes b (completed @ expired) addrs (ix_validator ix2);
          Some (ix2\<lparr>order_tracker := t, order_storage := s,
                    subscribers := notify_expired_orders expired (subscribers ix2),
                    ix_validator := v, handle_calls := handle_calls ix2 @ calls\<rparr>) }"

definition handle_res :: "pool_env \<Rightarrow> u64 \<Rightarrow> order_validator_res \<Rightarrow> order_indexer \<Rightarrow>
    (pool_inner_event list \<times> order_indexer) option" where
  "handle_res env now res ix =
     (case res of
        EnsureClearForTransition b hs addrs \<Rightarrow>
          do { ix' \<leftarrow> finish_new_block_processing env now b hs addrs ix; Some ([], ix') }
      | ValidatedOrder r \<Rightarrow> do { (ev, ix') \<leftarrow> handle_validated_order env r ix; Some ([ev], ix') }
      | TransitionComplete \<Rightarrow> Some ([HasTransitionedToNewBlock (block_number ix)], ix))"

text \<open>
  The loop of the indexer's poll, one poll of the validator for each event the runtime has, and one
  more when it has none left. That last poll can only report the end of the old block, after
  which there is nothing to do until the validator acknowledges.
\<close>

fun indexer_poll_next :: "pool_env \<Rightarrow> u64 \<Rightarrow> poll_event list \<Rightarrow> order_indexer \<Rightarrow>
    (pool_inner_event list \<times> order_indexer) option" where
  "indexer_poll_next env now [] ix =
     (case validator_poll_next \<lparr>finished = None, informed = False\<rparr> (ix_validator ix) of
        (PollReady (Some res), v) \<Rightarrow> handle_res env now res (ix\<lparr>ix_validator := v\<rparr>)
      | (_, v) \<Rightarrow> Some ([], ix\<lparr>ix_validator := v\<rparr>))"
| "indexer_poll_next env now (ev # evs) ix =
     (case validator_poll_next ev (ix_validator ix) of
        (PollReady (Some res), v) \<Rightarrow>
          do { (out, ix1) \<leftarrow> handle_res env now res (ix\<lparr>ix_validator := v\<rparr>);
               (outs, ix2) \<leftarrow> indexer_poll_next env now evs ix1;
               Some (out @ outs, ix2) }
      | (_, v) \<Rightarrow> Some ([], ix\<lparr>ix_validator := v\<rparr>))"

section \<open>No order is lost in the validator\<close>

primrec futures_of :: "order_validator \<Rightarrow> validation list" where
  "futures_of (ClearingForNewBlock b w c r f) = f"
| "futures_of (WaitingForStorageCleanup w) = []"
| "futures_of (InformState w) = []"
| "futures_of (RegularProcessing f) = f"

primrec waiting_of :: "order_validator \<Rightarrow> validation list" where
  "waiting_of (ClearingForNewBlock b w c r f) = w"
| "waiting_of (WaitingForStorageCleanup w) = w"
| "waiting_of (InformState w) = w"
| "waiting_of (RegularProcessing f) = []"

primrec is_regular :: "order_validator \<Rightarrow> bool" where
  "is_regular (ClearingForNewBlock b w c r f) = False"
| "is_regular (WaitingForStorageCleanup w) = False"
| "is_regular (InformState w) = False"
| "is_regular (RegularProcessing f) = True"

text \<open>
  A history of the validator: the orders submitted, the orders whose validation was handed back,
  how many block transitions were begun, and what the polls returned.
\<close>

inductive validator_run :: "validation list \<Rightarrow> validation list \<Rightarrow> nat \<Rightarrow> order_validator_res list \<Rightarrow>
    order_validator \<Rightarrow> bool" where
  run_start: "validator_run [] [] 0 [] validator_new"
| run_submit: "validator_run subs comps n outs v \<Longrightarrow>
    validator_run (subs @ [(origin, x)]) comps n outs (validate_order origin x v)"
| run_new_block: "validator_run subs comps n outs v \<Longrightarrow> on_new_block b hs addrs v = Some v' \<Longrightarrow>
    validator_run subs comps (Suc n) outs v'"
| run_notify: "validator_run subs comps n outs v \<Longrightarrow>
    notify_validation_on_changes b hs addrs v = (v', calls) \<Longrightarrow> validator_run subs comps n outs v'"
| run_result: "validator_run subs comps n outs v \<Longrightarrow>
    validator_poll_next ev v = (PollReady (Some (ValidatedOrder res)), v') \<Longrightarrow>
    finished ev = Some (i, res) \<Longrightarrow> validator_run subs (comps @ [futures_of v ! i]) n (outs @ [ValidatedOrder res]) v'"
| run_transition: "validator_run subs comps n outs v \<Longrightarrow> validator_poll_next ev v = (PollReady (Some res), v') \<Longrightarrow>
    \<forall>r. res \<noteq> ValidatedOrder r \<Longrightarrow> validator_run subs comps n (outs @ [res]) v'"
| run_idle: "validator_run subs comps n outs v \<Longrightarrow> validator_poll_next ev v = (p, v') \<Longrightarrow>
    \<forall>r. p \<noteq> PollReady (Some r) \<Longrightarrow> validator_run subs comps n outs v'"

lemma requeue: "fold (\<lambda>(origin, x) v. validate_order origin x v) w (RegularProcessing f) = RegularProcessing (f @ w)"
  by (induction w arbitrary: f) auto

lemma handle_inform_eq: "handle_inform w ready = (if ready then Some (RegularProcessing w) else None)"
  by (simp add: handle_inform_def requeue)

lemma validate_order_parts:
  "mset (futures_of (validate_order origin x v)) + mset (waiting_of (validate_order origin x v)) =
     mset (futures_of v) + mset (waiting_of v) + {#(origin, x)#}"
  "is_regular (validate_order origin x v) = is_regular v"
  by (cases v; simp)+

lemma remove_nth_mset: "i < length f \<Longrightarrow> mset f = mset (take i f @ drop (Suc i) f) + {#f ! i#}"
  by (metis add.commute add_mset_add_single id_take_nth_drop mset.simps(2) mset_append union_mset_add_mset_right)

lemma poll_futures_result:
  "poll_futures ready f = (PollReady (Some res), f') \<Longrightarrow>
   \<exists>i. ready = Some (i, res) \<and> i < length f \<and> f' = take i f @ drop (Suc i) f"
  by (auto simp: poll_futures_def split: if_splits option.splits)

lemma poll_result:
  assumes "validator_poll_next ev v = (PollReady (Some (ValidatedOrder res)), v')" "finished ev = Some (i, res)"
  shows "mset (futures_of v) = mset (futures_of v') + {#futures_of v ! i#}" "waiting_of v' = waiting_of v"
    "is_regular v' = is_regular v"
proof -
  have "i < length (futures_of v) \<and> futures_of v' = take i (futures_of v) @ drop (Suc i) (futures_of v) \<and>
      waiting_of v' = waiting_of v \<and> is_regular v' = is_regular v"
    using assms
    by (cases v) (auto simp: handle_inform_eq split: prod.splits poll.splits option.splits if_splits
        dest!: poll_futures_result)
  then show "mset (futures_of v) = mset (futures_of v') + {#futures_of v ! i#}" "waiting_of v' = waiting_of v"
    "is_regular v' = is_regular v"
    using remove_nth_mset [of i "futures_of v"] by simp_all
qed

lemma poll_transition:
  assumes "validator_poll_next ev v = (PollReady (Some res), v')" "\<forall>r. res \<noteq> ValidatedOrder r"
  shows "futures_of v' @ waiting_of v' = futures_of v @ waiting_of v"
    "\<not> is_regular v" "is_regular v' \<longleftrightarrow> res = TransitionComplete"
  using assms
  by (cases v; auto simp: handle_inform_eq poll_futures_def split: prod.splits poll.splits option.splits if_splits)+

lemma poll_idle:
  assumes "validator_poll_next ev v = (p, v')" "\<forall>r. p \<noteq> PollReady (Some r)"
  shows "v' = v"
  using assms
  by (cases v) (auto simp: handle_inform_eq poll_futures_def split: prod.splits poll.splits option.splits if_splits)

text \<open>
  C2. Whatever the interleaving of submissions, block transitions and polls, every order ever
  submitted is exactly once among the orders handed back, the validations in flight and the
  orders waiting for the new block; and every transition begun is completed but the current one.
\<close>
theorem validator_loses_no_order:
  "validator_run subs comps n outs v \<Longrightarrow>
   mset subs = mset comps + mset (futures_of v) + mset (waiting_of v) \<and>
   n = count_list outs TransitionComplete + (if is_regular v then 0 else 1)"
proof (induction rule: validator_run.induct)
  case (run_submit subs comps n outs v origin x)
  then show ?case
    using validate_order_parts [of origin x v] by (simp add: union_assoc)
next
  case (run_new_block subs comps n outs v b hs addrs v')
  then show ?case by (cases v) (auto simp: validator_new_def)
next
  case (run_notify subs comps n outs v b hs addrs v' calls)
  then show ?case by (cases v) auto
next
  case (run_result subs comps n outs v ev res v' i)
  then show ?case using poll_result [OF run_result.hyps(2,3)] by simp
next
  case (run_transition subs comps n outs v ev res v')
  have "mset (futures_of v') + mset (waiting_of v') = mset (futures_of v) + mset (waiting_of v)"
    using poll_transition(1) [OF run_transition.hyps(2,3)] by (metis mset_append)
  then show ?case
    using run_transition.IH poll_transition(2,3) [OF run_transition.hyps(2,3)] by (simp add: union_assoc)
next
  case (run_idle subs comps n outs v ev p v')
  then show ?case using poll_idle [OF run_idle.hyps(2,3)] by simp
qed (simp add: validator_new_def)

theorem validator_loses_no_order_witness:
  "\<exists>v. validator_run [(Local, sample_standing 1), (External, sample_standing 2)] [] 1
       [EnsureClearForTransition 4 [] []] v \<and>
     mset [(Local, sample_standing 1), (External, sample_standing 2)] = mset (futures_of v) + mset (waiting_of v)"
proof -
  have nb: "validator_run [] [] (Suc 0) [] (ClearingForNewBlock 4 [] [] [] [])"
    by (rule run_new_block [OF run_start, of 4 "[]" "[]"]) (simp add: validator_new_def)
  have s1: "validator_run [(Local, sample_standing 1)] [] (Suc 0) []
      (ClearingForNewBlock 4 [(Local, sample_standing 1)] [] [] [])"
    using run_submit [OF nb, of Local "sample_standing 1"] by simp
  have cl: "validator_run [(Local, sample_standing 1)] [] (Suc 0) [EnsureClearForTransition 4 [] []]
      (WaitingForStorageCleanup [(Local, sample_standing 1)])"
    using run_transition [OF s1, of "\<lparr>finished = None, informed = False\<rparr>" "EnsureClearForTransition 4 [] []"]
    by (simp add: poll_futures_def)
  have s2: "validator_run [(Local, sample_standing 1), (External, sample_standing 2)] [] 1
      [EnsureClearForTransition 4 [] []]
      (WaitingForStorageCleanup [(Local, sample_standing 1), (External, sample_standing 2)])"
    using run_submit [OF cl, of External "sample_standing 2"] by simp
  with validator_loses_no_order [OF s2] show ?thesis by auto
qed

section \<open>Cancellation\<close>

lemma lop_remove_parked_order_inv:
  assumes inv: "lop_inv l" and rem: "lop_remove_parked_order oid l = (r, l')"
  shows "lop_inv l'" "lop_lookup l' \<subseteq>\<^sub>m lop_lookup l"
proof -
  let ?k = "(oid_pool_id oid, oid_hash oid)"
  obtain b m where bm: "limit_remove_parked_order (oid_pool_id oid) (oid_hash oid) (limit_orders l) = (b, m)" by fastforce
  obtain c q where cq: "pools_remove (oid_pool_id oid) (oid_hash oid) (composable_orders l) = (c, q)" by fastforce
  have ci: "pools_inv (composable_orders l)" using inv by (simp add: lop_inv_def)
  note b = limit_remove_parked [OF bm] and c = pools_remove [OF ci cq]
  have l': "l' = (case b of Some x \<Rightarrow> l\<lparr>limit_orders := m\<rparr> | None \<Rightarrow> l\<lparr>limit_orders := m, composable_orders := q\<rparr>)"
    using rem bm cq by (auto simp: lop_remove_parked_order_def composable_remove_pools split: option.splits)
  have cases: "composable_orders l' = composable_orders l \<or> composable_orders l' = q"
    and lim: "limit_orders l' = m" using l' by (auto split: option.splits)
  show "lop_inv l'"
    using cases inv b(2,3) c(2,3) by (auto simp: lop_inv_def lim disjoint_iff domIff split: if_splits)
  have "parkeds_get (parked_orders (limit_orders l)) k \<noteq> None \<Longrightarrow> pools_get (composable_orders l) k = None" for k
    using inv disjoint_domD by (metis lop_inv_def)
  then have comp: "lop_lookup l' k = Some y \<Longrightarrow> lop_lookup l k = Some y" for k y
    using cases b c(2)
    by (auto simp: lop_lookup_def lim map_add_def split: option.splits if_splits)
  show "lop_lookup l' \<subseteq>\<^sub>m lop_lookup l"
    using comp by (auto simp: map_le_def)
qed

lemma storage_remove_parked_inv:
  assumes inv: "storage_inv s" and rem: "storage_remove_parked_order oid s = (r, s')"
  shows "storage_inv s'" "storage_get s' \<subseteq>\<^sub>m storage_get s"
proof -
  obtain l where l: "lop_remove_parked_order oid (os_limit s) = (r, l)" "s' = s\<lparr>os_limit := l\<rparr>"
    using rem by (auto simp: storage_remove_parked_order_def split: prod.splits)
  have "lop_inv (os_limit s)" using inv by (simp add: storage_inv_def)
  note p = lop_remove_parked_order_inv [OF this l(1)]
  show "storage_inv s'" using inv p(1) by (simp add: storage_inv_def l(2))
  have "lop_lookup l k = Some x \<Longrightarrow> lop_lookup (os_limit s) k = Some x" for k x
    using p(2) by (metis domI map_le_def)
  then have "storage_get s' (loc, k) = Some x \<Longrightarrow> storage_get s (loc, k) = Some x" for loc k x
    by (auto simp: storage_get_split l(2) split: order_location.splits)
  then show "storage_get s' \<subseteq>\<^sub>m storage_get s" by (auto simp: map_le_def)
qed

lemma filter_map_parked_inv:
  "storage_inv s \<Longrightarrow> filter_map_ids storage_remove_parked_order oids s = (xs, s') \<Longrightarrow>
   storage_inv s' \<and> storage_get s' \<subseteq>\<^sub>m storage_get s"
proof (induction oids arbitrary: s xs)
  case (Cons oid oids)
  obtain r s1 where r: "storage_remove_parked_order oid s = (r, s1)" by fastforce
  obtain ys where ys: "filter_map_ids storage_remove_parked_order oids s1 = (ys, s')"
    using Cons.prems(2) r by (auto split: prod.splits)
  note p = storage_remove_parked_inv [OF Cons.prems(1) r]
  from Cons.IH [OF p(1) ys] p(2) show ?case by (meson map_le_trans)
qed simp

lemma revalidate_parked_storage: "order_storage (fold (revalidate_parked env) xs ix) = order_storage ix"
  by (induction xs arbitrary: ix) (simp_all add: revalidate_parked_def)

lemma revalidate_parked_tracker: "order_tracker (fold (revalidate_parked env) xs ix) = order_tracker ix"
  by (induction xs arbitrary: ix) (simp_all add: revalidate_parked_def)

lemma storage_cancel_order_key:
  "\<not> finalization_has_order (os_finalization s) (oid_hash oid) \<Longrightarrow>
   storage_cancel_order oid s = storage_take (oid_key oid) s"
  by (simp add: storage_cancel_order_def remove_order_from_id_key [symmetric] remove_order_from_id_def)


definition sample_sig :: signature_env where
  "sample_sig = \<lparr>pade_decode = (\<lambda>s. if s = [] then None else Some s),
     recover_address_from_msg = (\<lambda>s m. Some (ucast (hd s)))\<rparr>"

definition sample_indexer_env :: indexer_env where
  "sample_indexer_env = \<lparr>ie_pool = sample_env, ie_sig = sample_sig\<rparr>"

text \<open>An indexer at block 3 that has taken in the standing order 10 of account 1.\<close>

definition sample_indexer :: order_indexer where
  "sample_indexer =
     (case handle_validated_order sample_env (ResultValid (sample_order (sample_standing 10) Limit 10 5))
             (indexer_new (storage_new (with_pool_ids [7])) 3) of
        None \<Rightarrow> indexer_new (storage_new (with_pool_ids [7])) 3 | Some (ev, ix) \<Rightarrow> ix)"

lemmas indexer_run_defs = sample_indexer_def indexer_new_def tracker_new_def subscribers_new_def
  stop_validating_def new_valid_order_def entry_or_nil_def tracker_park_orders_def
  notify_order_subscribers_def notify_validation_subscribers_def finalization_new_def

lemma sample_indexer_eq:
  "sample_indexer = (indexer_new (storage_add sample_env (sample_order (sample_standing 10) Limit 10 5)
       (storage_new (with_pool_ids [7]))) 3)
     \<lparr>order_tracker := new_valid_order 10 1 (sample_id Limit 10) tracker_new,
      subscribers := subscribers_new\<lparr>sent_updates := [NewOrder (sample_order (sample_standing 10) Limit 10 5)]\<rparr>\<rparr>"
  by (simp add: indexer_run_defs storage_run_defs sample_meta_def List.map_filter_simps)


lemma handle_validated_cancelled:
  "handle_validated_order env res ix = Some (ev, ix') \<Longrightarrow>
   cancelled_orders (order_tracker ix') = cancelled_orders (order_tracker ix)"
  by (cases res)
    (auto simp: Let_def stop_validating_def invalid_verification_def new_valid_order_def bind_eq_Some_conv
      split: if_splits prod.splits)

lemma new_order_cancelled: "cancelled_orders (order_tracker (new_order env peer origin x sub ix)) = cancelled_orders (order_tracker ix)"
  by (simp add: new_order_def Let_def track_peer_id_def start_validating_def split: option.split)

lemma unindexed_cancel:
  assumes "indexer_cancel_order env now req ix = Some (False, ix')" "request_is_valid (ie_sig env) req = Some True"
  shows "map_option cancel_from (map_of (cancelled_orders (order_tracker ix')) (request_order_id req)) = Some (user_address req)"
proof -
  obtain r t s where tc: "tracker_cancel_order (ie_pool env) now (user_address req) (request_order_id req)
      (order_tracker ix) (order_storage ix) = (r, t, s)" by (rule prod_cases3)
  from assms tc have none: "r = None" and t: "order_tracker ix' = t"
    by (auto simp: indexer_cancel_order_def Let_def split: if_splits option.splits prod.splits)
  have "map_option cancel_from (map_of (cancelled_orders t) (request_order_id req)) = Some (user_address req)"
    using tc none
    by (auto simp: tracker_cancel_order_def Let_def cancel_with_next_block_deadline_def
        insert_cancel_with_deadline_def update_conv' split: option.splits prod.splits)
  then show ?thesis by (simp add: t)
qed

text \<open>
  C26. A cancellation that arrives before its order is remembered under the requester: when another
  account's order with that hash arrives it is validated and taken in as usual, and from then on
  its owner's own cancellation is answered with success and does nothing.
\<close>
theorem early_cancel_shields_order:
  assumes "indexer_cancel_order env now req ix = Some (False, ix1)" "request_is_valid (ie_sig env) req = Some True"
    and "hash_of (ie_pool env) x = request_order_id req" "user_address req \<noteq> order_from (pool_order_of x)"
    and "\<not> is_duplicate (order_tracker ix1) (request_order_id req)"
    and "\<not> is_validating (order_tracker ix1) (request_order_id req)"
    and "handle_validated_order (ie_pool env) res (new_order (ie_pool env) peer origin x sub ix1) = Some (ev, ix2)"
    and "request_order_id req' = request_order_id req" "request_is_valid (ie_sig env) req' = Some True"
  shows "ix_validator (new_order (ie_pool env) peer origin x sub ix1) = validate_order origin x (ix_validator ix1) \<and>
    indexer_cancel_order env now' req' ix2 = Some (True, ix2)"
proof -
  note c = unindexed_cancel [OF assms(1,2)]
  then have "\<not> is_valid_cancel (order_tracker ix1) (request_order_id req) (order_from (pool_order_of x))"
    using assms(4) by (auto simp: is_valid_cancel_def split: option.splits)
  then have "ix_validator (new_order (ie_pool env) peer origin x sub ix1) = validate_order origin x (ix_validator ix1)"
    using assms(3,5,6)
    by (auto simp: new_order_def Let_def is_validating_def track_peer_id_def split: option.splits)
  moreover have "is_cancelled (order_tracker ix2) (request_order_id req)"
    using c handle_validated_cancelled [OF assms(7)] by (auto simp: new_order_cancelled is_cancelled_def)
  ultimately show ?thesis using assms(8,9) by (simp add: indexer_cancel_order_def)
qed

theorem early_cancel_shields_order_witness:
  "\<exists>ix1 ix2.
     indexer_cancel_order sample_indexer_env 50 \<lparr>request_signature = [99], user_address = 99, request_order_id = 10\<rparr>
       (indexer_new (storage_new (with_pool_ids [7])) 3) = Some (False, ix1) \<and>
     handle_validated_order sample_env (ResultValid (sample_order (sample_standing 10) Limit 10 5))
       (new_order sample_env None Local (sample_standing 10) None ix1) = Some (Propagation (sample_standing 10), ix2) \<and>
     indexer_cancel_order sample_indexer_env 60 \<lparr>request_signature = [1], user_address = 1, request_order_id = 10\<rparr> ix2 =
       Some (True, ix2) \<and>
     get_order_from_id (order_storage ix2) (sample_id Limit 10) = Some (sample_order (sample_standing 10) Limit 10 5)"
proof -
  let ?r = "\<lparr>request_signature = [99], user_address = 99, request_order_id = 10\<rparr>"
  let ?o = "\<lparr>request_signature = [1], user_address = 1, request_order_id = 10\<rparr>"
  obtain ix1 where ix1: "indexer_cancel_order sample_indexer_env 50 ?r (indexer_new (storage_new (with_pool_ids [7])) 3) =
      Some (False, ix1)" and t1: "order_tracker ix1 = cancel_with_next_block_deadline 50 99 10 tracker_new"
    and rest: "order_storage ix1 = storage_new (with_pool_ids [7])" "block_number ix1 = 3"
    by (simp add: indexer_cancel_order_def request_is_valid_def sample_indexer_env_def sample_sig_def
        indexer_new_def tracker_new_def is_seen_invalid_def is_cancelled_def tracker_cancel_order_def)
  let ?n = "new_order sample_env None Local (sample_standing 10) None ix1"
  have n: "order_storage ?n = storage_new (with_pool_ids [7])" "block_number ?n = 3"
    using rest by (simp_all add: new_order_def Let_def)
  obtain ix2 where ix2: "handle_validated_order sample_env (ResultValid (sample_order (sample_standing 10) Limit 10 5)) ?n =
      Some (Propagation (sample_standing 10), ix2)"
    and got: "get_order_from_id (order_storage ix2) (sample_id Limit 10) = Some (sample_order (sample_standing 10) Limit 10 5)"
    using n by (simp add: Let_def tracker_park_orders_def List.map_filter_simps storage_run_defs get_order_from_id_def
        lop_get_order_def limit_get_order_def)
  have "indexer_cancel_order sample_indexer_env 60 ?o ix2 = Some (True, ix2)"
    using early_cancel_shields_order [OF ix1, of "sample_standing 10"
        "ResultValid (sample_order (sample_standing 10) Limit 10 5)" None Local None _ ix2 ?o 60] ix2
    by (simp add: request_is_valid_def sample_indexer_env_def sample_sig_def sample_env_def sample_standing_def
        pool_order_of_exact_standing_def sample_meta_def t1 is_duplicate_def is_validating_def tracker_new_def
        cancel_with_next_block_deadline_def insert_cancel_with_deadline_def)
  with ix1 ix2 got show ?thesis by blast
qed

end
