(* ===== verification/User_Accounts.thy ===== *)
theory User_Accounts
  imports Order_Tracker "HOL-Library.Multiset"
begin

text \<open>
  What a user can afford, \<^verbatim>\<open>validation/src/order/state/account/user.rs\<close> and
  \<^verbatim>\<open>account/mod.rs\<close>, and the reading of nonces from the contract's storage,
  \<^verbatim>\<open>state/db_state_utils/nonces.rs\<close>.

  Balances are 256-bit words whose addition wraps around, as in the library the code uses. The
  chain is a parameter: the balances, approvals and nonces it returns, each of which may fail.
  The concurrent maps are association lists; the thread pool runs the validations of one
  user one after another, so that a call is one step.

  Shown here: the orders that survive an insertion are covered by the user's balances together,
  the state an order is checked against is what the orders before it leave, no two pending orders
  of a user share a nonce, what the words of the nonce bitmap mean.
\<close>

section \<open>Nonces\<close>

text \<open>The big-endian bytes of a 64-bit word.\<close>

definition to_be_bytes :: "u64 \<Rightarrow> u8 list" where
  "to_be_bytes n = map (\<lambda>i. ucast (drop_bit (8 * (7 - i)) n)) [0..<8]"

definition address_bytes :: "address \<Rightarrow> u8 list" where
  "address_bytes a = map (\<lambda>i. ucast (drop_bit (8 * (19 - i)) a)) [0..<20]"

definition nonce_slot_const :: "u8 list" where
  "nonce_slot_const = [0xda, 0xa0, 0x50, 0xe9]"

text \<open>The bytes that are hashed to the slot of the word with the nonce.\<close>

definition nonce_word_key :: "address \<Rightarrow> u64 \<Rightarrow> u8 list" where
  "nonce_word_key user nonce = address_bytes user @ nonce_slot_const @ take 7 (to_be_bytes nonce)"

definition get_nonce_word_slot :: "(u8 list \<Rightarrow> b256) \<Rightarrow> address \<Rightarrow> u64 \<Rightarrow> b256" where
  "get_nonce_word_slot keccak user nonce = keccak (nonce_word_key user nonce)"

definition is_valid_nonce :: "(u8 list \<Rightarrow> b256) \<Rightarrow> (b256 \<Rightarrow> u256) \<Rightarrow> address \<Rightarrow> u64 \<Rightarrow> bool" where
  "is_valid_nonce keccak storage user nonce =
     (let word = storage (get_nonce_word_slot keccak user nonce);
          flag = push_bit (unat (ucast nonce :: u8)) (1 :: u256)
      in and (xor word flag) flag = flag)"

section \<open>State\<close>

record baseline_state =
  token_approval :: "(address \<times> u256) list"
  token_balance :: "(address \<times> u256) list"
  angstrom_balance :: "(address \<times> u256) list"

definition default_baseline :: baseline_state where
  "default_baseline = \<lparr>token_approval = [], token_balance = [], angstrom_balance = []\<rparr>"

record live_state =
  ls_token :: address
  ls_approval :: u256
  ls_balance :: u256
  ls_angstrom_balance :: u256

record pending_user_action =
  order_priority :: order_validation_priority
  pa_token_address :: address
  pa_token_delta :: u256
  pa_token_approval :: u256
  pa_angstrom_delta :: u256
  pa_pool_info :: user_order_pool_info

definition fetch_amount_in :: "pool_order \<Rightarrow> u256 option" where
  "fetch_amount_in x =
     do { price \<leftarrow> limit_price x;
          q \<leftarrow> (case (is_bid x, exact_in x) of
                   (True, False) \<Rightarrow> inverse_quantity price (amount x + max_gas_token_0 x) True
                 | (False, False) \<Rightarrow> do { q \<leftarrow> inverse_quantity price (amount x) True; Some (q + max_gas_token_0 x) }
                 | _ \<Rightarrow> Some (amount x));
          Some (ucast q) }"

text \<open>
  The outer option is a panic. A shortfall is below the amount, which comes from 128 bits, so
  that its conversion cannot fail.
\<close>

definition can_support_order :: "pool_order \<Rightarrow> b256 \<Rightarrow> user_order_pool_info \<Rightarrow> live_state \<Rightarrow>
    (user_account_verification_error + pending_user_action) option" where
  "can_support_order x hash info ls =
     (if token_in x \<noteq> ls_token ls then None
      else do {
        amt \<leftarrow> fetch_amount_in x;
        let action = (\<lambda>ang tok. \<lparr>order_priority = \<lparr>ovp_order_hash = hash, ovp_is_tob = is_tob x,
              ovp_is_partial = is_partial x, ovp_respend = respend_avoidance_strategy x\<rparr>,
            pa_token_address = info_token info, pa_token_delta = tok, pa_token_approval = amt,
            pa_angstrom_delta = ang, pa_pool_info = info\<rparr>);
        Some (if use_internal x then
                if ls_angstrom_balance ls < amt
                then Inl (InsufficientBalance hash (ls_token ls) (ucast (amt - ls_angstrom_balance ls)))
                else Inr (action amt 0)
              else
                (case (ls_approval ls < amt, ls_balance ls < amt) of
                   (True, True) \<Rightarrow> Inl (InsufficientBoth hash (ls_token ls)
                      (ucast (amt - ls_balance ls)) (ucast (amt - ls_approval ls)))
                 | (True, False) \<Rightarrow> Inl (InsufficientApproval hash (ls_token ls) (ucast (amt - ls_approval ls)))
                 | (False, True) \<Rightarrow> Inl (InsufficientBalance hash (ls_token ls) (ucast (amt - ls_balance ls)))
                 | (False, False) \<Rightarrow> Inr (action 0 amt))) })"

record user_accounts =
  pending_actions :: "(address \<times> pending_user_action list) list"
  last_known_state :: "(address \<times> baseline_state) list"

definition user_accounts_new :: user_accounts where
  "user_accounts_new = \<lparr>pending_actions = [], last_known_state = []\<rparr>"

definition pa_hash :: "pending_user_action \<Rightarrow> b256" where
  "pa_hash a = ovp_order_hash (order_priority a)"

section \<open>Operations\<close>

definition accounts_new_block :: "address list \<Rightarrow> b256 list \<Rightarrow> user_accounts \<Rightarrow> user_accounts" where
  "accounts_new_block users completed u =
     (let pend = fold AList.delete users (pending_actions u)
      in \<lparr>pending_actions =
            filter (\<lambda>(a, xs). xs \<noteq> [])
              (map (\<lambda>(a, xs). (a, filter (\<lambda>p. pa_hash p \<notin> set completed) xs)) pend),
          last_known_state = fold AList.delete users (last_known_state u)\<rparr>)"

definition accounts_cancel_order :: "address \<Rightarrow> b256 \<Rightarrow> user_accounts \<Rightarrow> bool \<times> user_accounts" where
  "accounts_cancel_order user h u =
     (case map_of (pending_actions u) user of
        None \<Rightarrow> (False, u)
      | Some xs \<Rightarrow>
          (\<exists>x\<in>set xs. pa_hash x = h,
           u\<lparr>pending_actions := AList.update user (filter (\<lambda>x. pa_hash x \<noteq> h) xs) (pending_actions u)\<rparr>))"

definition respend_conflicts ::
    "address \<Rightarrow> respend_avoidance_method \<Rightarrow> user_accounts \<Rightarrow> pending_user_action list" where
  "respend_conflicts user avoidance u =
     (case avoidance of
        Nonce n \<Rightarrow> filter (\<lambda>p. ovp_respend (order_priority p) = avoidance) (entry_or_nil (pending_actions u) user)
      | Block b \<Rightarrow> [])"

text \<open>What the accounts ask of the chain; an error carries its message.\<close>

record fetch_utils =
  fu_is_valid_nonce :: "address \<Rightarrow> u64 \<Rightarrow> string + bool"
  fetch_approval_balance_for_token :: "address \<Rightarrow> address \<Rightarrow> string + u256 option"
  fetch_balance_for_token :: "address \<Rightarrow> address \<Rightarrow> string + u256"

definition load_state_for :: "fetch_utils \<Rightarrow> address \<Rightarrow> address \<Rightarrow> user_accounts \<Rightarrow> string + user_accounts" where
  "load_state_for fu user token u =
     (case fetch_approval_balance_for_token fu user token of
        Inl e \<Rightarrow> Inl e
      | Inr None \<Rightarrow> Inl ''could not properly find approvals''
      | Inr (Some appr) \<Rightarrow>
          (case fetch_balance_for_token fu user token of
             Inl e \<Rightarrow> Inl e
           | Inr bal \<Rightarrow>
               let st = (case map_of (last_known_state u) user of None \<Rightarrow> default_baseline | Some b \<Rightarrow> b);
                   st' = \<lparr>token_approval = AList.update token appr (token_approval st),
                          token_balance = AList.update token bal (token_balance st),
                          angstrom_balance = AList.update token bal (angstrom_balance st)\<rparr>
               in Inr (u\<lparr>last_known_state := AList.update user st' (last_known_state u)\<rparr>)))"

definition spends :: "pending_user_action \<Rightarrow> u256 \<times> u256 \<times> u256 \<Rightarrow> u256 \<times> u256 \<times> u256" where
  "spends x = (\<lambda>(appr, bal, ang). (appr + pa_token_approval x, bal + pa_token_delta x, ang + pa_angstrom_delta x))"

definition try_fetch_live_pending_state ::
    "address \<Rightarrow> address \<Rightarrow> order_validation_priority \<Rightarrow> user_accounts \<Rightarrow> live_state option" where
  "try_fetch_live_pending_state user token prio u =
     do { st \<leftarrow> map_of (last_known_state u) user;
          appr \<leftarrow> map_of (token_approval st) token;
          bal \<leftarrow> map_of (token_balance st) token;
          ang \<leftarrow> map_of (angstrom_balance st) token;
          let (sa, sb, sg) = fold spends
                (takeWhile (\<lambda>x. is_higher_priority (order_priority x) prio = Greater)
                   (filter (\<lambda>x. pa_token_address x = token) (entry_or_nil (pending_actions u) user)))
                (0, 0, 0);
          Some \<lparr>ls_token = token, ls_approval = saturating_sub appr sa, ls_balance = saturating_sub bal sb,
                ls_angstrom_balance = saturating_sub ang sg\<rparr> }"

text \<open>The accounts are returned with an error too: a state that was loaded stays.\<close>

definition get_live_state_for_order :: "fetch_utils \<Rightarrow> address \<Rightarrow> address \<Rightarrow> order_validation_priority \<Rightarrow>
    user_accounts \<Rightarrow> (string + live_state) \<times> user_accounts" where
  "get_live_state_for_order fu user token prio u =
     (case try_fetch_live_pending_state user token prio u of
        Some ls \<Rightarrow> (Inr ls, u)
      | None \<Rightarrow>
          (case load_state_for fu user token u of
             Inl e \<Rightarrow> (Inl e, u)
           | Inr u' \<Rightarrow>
               (case try_fetch_live_pending_state user token prio u' of
                  Some ls \<Rightarrow> (Inr ls, u')
                | None \<Rightarrow> (Inl ''after loading state for a address, the state wasn't found. this should be impossible'', u'))))"

text \<open>
  The walk over the pending orders of one token, in the order of their priority: what is left of
  the three balances, whether a subtraction has wrapped around, and the orders from there on.
\<close>

definition underflow_sub :: "u256 \<Rightarrow> u256 \<Rightarrow> u256 \<times> bool" where
  "underflow_sub a b = (a - b, a < b)"

fun invalidated :: "pending_user_action list \<Rightarrow> u256 \<Rightarrow> u256 \<Rightarrow> u256 \<Rightarrow> bool \<Rightarrow> b256 list" where
  "invalidated [] appr bal ang over = []"
| "invalidated (x # xs) appr bal ang over =
     (let (appr', o1) = underflow_sub appr (pa_token_approval x);
          (bal', o2) = underflow_sub bal (pa_token_delta x);
          (ang', o3) = underflow_sub ang (pa_angstrom_delta x);
          over' = (over \<or> o1 \<or> o2 \<or> o3);
          rest = invalidated xs appr' bal' ang' over'
      in if over' then pa_hash x # rest else rest)"

text \<open>None is the panic on a token, or on a user, that is missing.\<close>

definition fetch_all_invalidated_orders :: "address \<Rightarrow> address \<Rightarrow> user_accounts \<Rightarrow> b256 list option" where
  "fetch_all_invalidated_orders user token u =
     (case map_of (last_known_state u) user of
        None \<Rightarrow> Some []
      | Some st \<Rightarrow>
          do { appr \<leftarrow> map_of (token_approval st) token;
               bal \<leftarrow> map_of (token_balance st) token;
               ang \<leftarrow> map_of (angstrom_balance st) token;
               xs \<leftarrow> map_of (pending_actions u) user;
               Some (invalidated (filter (\<lambda>x. pa_token_address x = token) xs) appr bal ang False) })"

text \<open>Sorting by descending priority. The comparison is total, so only copies of one order can tie.\<close>

definition sort_by_priority :: "pending_user_action list \<Rightarrow> pending_user_action list" where
  "sort_by_priority xs = rev (sort_key (\<lambda>x. ovp_key (order_priority x)) (rev xs))"

definition insert_pending_user_action ::
    "address \<Rightarrow> pending_user_action \<Rightarrow> user_accounts \<Rightarrow> (b256 list \<times> user_accounts) option" where
  "insert_pending_user_action user act u =
     (let u' = u\<lparr>pending_actions :=
                  AList.update user (sort_by_priority (entry_or_nil (pending_actions u) user @ [act]))
                    (pending_actions u)\<rparr>
      in do { bad \<leftarrow> fetch_all_invalidated_orders user (pa_token_address act) u'; Some (bad, u') })"

section \<open>Verification of an order\<close>

definition into_order_storage_with_data :: "('o \<Rightarrow> pool_order) \<Rightarrow> ('o \<Rightarrow> b256) \<Rightarrow> 'o \<Rightarrow> u64 \<Rightarrow>
    user_account_verification_error option \<Rightarrow> bool \<Rightarrow> user_order_pool_info \<Rightarrow> b256 list \<Rightarrow> 'o stored_order option" where
  "into_order_storage_with_data view hash x block cur_invalid valid info bad =
     do { price \<leftarrow> limit_price (view x);
          Some \<lparr>order = x, priority_data = OrderPriorityData price (amount (view x)) 0 0, invalidates = bad,
                pool_id = info_pool_id info, currently_invalid = cur_invalid, stored_is_bid = info_is_bid info,
                is_valid = valid, valid_block = block,
                order_id = from_all_orders (view x) (hash x) (info_pool_id info), tob_reward = 0\<rparr> }"

definition check_respend :: "fetch_utils \<Rightarrow> pool_order \<Rightarrow> b256 \<Rightarrow> u64 \<Rightarrow> user_account_verification_error option" where
  "check_respend fu v hash block =
     (case respend_avoidance_strategy v of
        Nonce n \<Rightarrow>
          (case fu_is_valid_nonce fu (order_from v) n of
             Inl e \<Rightarrow> Some (CouldNotFetch e)
           | Inr ok \<Rightarrow> if ok then None else Some (DuplicateNonce hash))
      | Block b \<Rightarrow> if block + 1 \<noteq> b then Some (BadBlock (block + 1) b) else None)"

definition verify_order :: "fetch_utils \<Rightarrow> ('o \<Rightarrow> pool_order) \<Rightarrow> ('o \<Rightarrow> b256) \<Rightarrow> 'o \<Rightarrow> user_order_pool_info \<Rightarrow> u64 \<Rightarrow>
    user_accounts \<Rightarrow> ((user_account_verification_error + 'o stored_order) \<times> user_accounts) option" where
  "verify_order fu view hash x info block u =
     (let v = view x; h = hash x; user = order_from v
      in case check_respend fu v h block of
           Some e \<Rightarrow> Some (Inl e, u)
         | None \<Rightarrow>
             if has_hook v then Some (Inl NonEmptyHook, u)
             else
               let conflicts = respend_conflicts user (respend_avoidance_strategy v) u
               in if \<exists>c\<in>set conflicts. pa_hash c \<le> h then Some (Inl (DuplicateNonce h), u)
                  else
                    let u1 = fold (\<lambda>c u. snd (accounts_cancel_order user (pa_hash c) u)) conflicts u;
                        (r, u2) = get_live_state_for_order fu user (info_token info) (validation_priority v h) u1
                    in (case r of
                          Inl e \<Rightarrow> Some (Inl (CouldNotFetch e), u2)
                        | Inr ls \<Rightarrow>
                            do { s \<leftarrow> can_support_order v h info ls;
                                 (case s of
                                    Inr act \<Rightarrow>
                                      do { (bad, u3) \<leftarrow> insert_pending_user_action user act u2;
                                           y \<leftarrow> into_order_storage_with_data view hash x block None True info
                                                  (bad @ map pa_hash conflicts);
                                           Some (Inr y, u3) }
                                  | Inl e \<Rightarrow>
                                      do { y \<leftarrow> into_order_storage_with_data view hash x block (Some e) True info
                                                  (map pa_hash conflicts);
                                           Some (Inr y, u2) }) }))"

section \<open>What survives is covered\<close>

lemma invalidated_over: "invalidated xs appr bal ang True = map pa_hash xs"
  by (induction xs arbitrary: appr bal ang) (simp_all add: underflow_sub_def Let_def)

abbreviation total_of :: "(pending_user_action \<Rightarrow> u256) \<Rightarrow> pending_user_action list \<Rightarrow> nat" where
  "total_of f xs \<equiv> sum_list (map (\<lambda>x. unat (f x)) xs)"

text \<open>The orders of a list fit into the three balances together.\<close>

definition covered :: "pending_user_action list \<Rightarrow> u256 \<Rightarrow> u256 \<Rightarrow> u256 \<Rightarrow> bool" where
  "covered xs appr bal ang \<longleftrightarrow>
     total_of pa_token_approval xs \<le> unat appr \<and> total_of pa_token_delta xs \<le> unat bal \<and>
     total_of pa_angstrom_delta xs \<le> unat ang"

lemma covered_Cons:
  "covered (x # xs) appr bal ang \<longleftrightarrow>
     \<not> (appr < pa_token_approval x \<or> bal < pa_token_delta x \<or> ang < pa_angstrom_delta x) \<and>
     covered xs (appr - pa_token_approval x) (bal - pa_token_delta x) (ang - pa_angstrom_delta x)"
  by (auto simp: covered_def word_less_nat_alt unat_sub_if')

text \<open>The walk keeps the longest covered prefix and gives up everything behind it.\<close>

lemma covered_Nil [simp]: "covered [] appr bal ang"
  by (simp add: covered_def)

lemma invalidated_suffix:
  "\<exists>n. invalidated xs appr bal ang False = map pa_hash (drop n xs) \<and> covered (take n xs) appr bal ang \<and>
       (n < length xs \<longrightarrow> \<not> covered (take (Suc n) xs) appr bal ang)"
proof (induction xs arbitrary: appr bal ang)
  case (Cons x xs)
  show ?case
  proof (cases "appr < pa_token_approval x \<or> bal < pa_token_delta x \<or> ang < pa_angstrom_delta x")
    case True
    then show ?thesis
      by (intro exI [of _ 0]) (auto simp: underflow_sub_def invalidated_over covered_Cons)
  next
    case False
    obtain n where
      "invalidated xs (appr - pa_token_approval x) (bal - pa_token_delta x) (ang - pa_angstrom_delta x) False =
         map pa_hash (drop n xs)"
      "covered (take n xs) (appr - pa_token_approval x) (bal - pa_token_delta x) (ang - pa_angstrom_delta x)"
      "n < length xs \<longrightarrow> \<not> covered (take (Suc n) xs) (appr - pa_token_approval x) (bal - pa_token_delta x)
         (ang - pa_angstrom_delta x)"
      using Cons.IH by blast
    with False show ?thesis
      by (intro exI [of _ "Suc n"]) (simp add: underflow_sub_def covered_Cons)
  qed
qed simp


section \<open>The state an order is checked against\<close>

definition prio_of :: "pending_user_action \<Rightarrow> bool \<times> bool \<times> int \<times> int" where
  "prio_of x = ovp_key (order_priority x)"

text \<open>The pending orders of every user are in descending order of priority.\<close>

definition accounts_sorted :: "user_accounts \<Rightarrow> bool" where
  "accounts_sorted u \<longleftrightarrow> (\<forall>user. sorted (rev (map prio_of (entry_or_nil (pending_actions u) user))))"

lemma sort_by_priority_props:
  "sorted (rev (map prio_of (sort_by_priority xs)))" "mset (sort_by_priority xs) = mset xs"
  "set (sort_by_priority xs) = set xs"
proof -
  have "rev (map prio_of (sort_by_priority xs)) = map prio_of (sort_key prio_of (rev xs))"
    unfolding sort_by_priority_def prio_of_def rev_map rev_rev_ident by simp
  then show "sorted (rev (map prio_of (sort_by_priority xs)))" by simp
  show "mset (sort_by_priority xs) = mset xs" "set (sort_by_priority xs) = set xs"
    by (simp_all add: sort_by_priority_def)
qed

lemma takeWhile_sorted:
  "sorted (rev (map prio_of xs)) \<Longrightarrow> takeWhile (\<lambda>x. k < prio_of x) xs = filter (\<lambda>x. k < prio_of x) xs"
proof (induction xs)
  case (Cons x xs)
  have "\<not> k < prio_of x \<Longrightarrow> y \<in> set xs \<Longrightarrow> \<not> k < prio_of y" for y
    using Cons.prems by (force simp: sorted_append)
  then have "\<not> k < prio_of x \<Longrightarrow> filter (\<lambda>x. k < prio_of x) xs = []"
    by (simp add: filter_empty_conv)
  moreover have "sorted (rev (map prio_of xs))" using Cons.prems by (simp add: sorted_append)
  ultimately show ?case using Cons.IH by simp
qed simp

lemma higher_iff: "is_higher_priority (order_priority x) p = Greater \<longleftrightarrow> ovp_key p < prio_of x"
  by (auto simp: is_higher_priority_key prio_of_def cmp_def)

lemma sorted_filter_rev: "sorted (rev (map f xs)) \<Longrightarrow> sorted (rev (map f (filter P xs)))"
  by (simp add: rev_map rev_filter sorted_filter)

lemma spends_fold:
  "total_of pa_token_approval xs < 2 ^ 256 \<Longrightarrow> total_of pa_token_delta xs < 2 ^ 256 \<Longrightarrow>
   total_of pa_angstrom_delta xs < 2 ^ 256 \<Longrightarrow>
   fold spends xs (a, b, c) = (a + of_nat (total_of pa_token_approval xs), b + of_nat (total_of pa_token_delta xs),
     c + of_nat (total_of pa_angstrom_delta xs))"
  by (induction xs arbitrary: a b c) (simp_all add: spends_def algebra_simps)

text \<open>
  C6. The state an order is checked against is the last known one less what the user's pending
  orders of higher priority in that token spend, and not below zero, whatever their number.
  The amounts are assumed not to exceed the 256 bits together.
\<close>
theorem live_state_exact:
  assumes "accounts_sorted u" "try_fetch_live_pending_state user token prio u = Some ls"
    and "map_of (last_known_state u) user = Some st"
    and "map_of (token_approval st) token = Some appr" "map_of (token_balance st) token = Some bal"
    and "map_of (angstrom_balance st) token = Some ang"
    and "before = filter (\<lambda>x. pa_token_address x = token \<and> is_higher_priority (order_priority x) prio = Greater)
           (entry_or_nil (pending_actions u) user)"
    and "total_of pa_token_approval before < 2 ^ 256" "total_of pa_token_delta before < 2 ^ 256"
    and "total_of pa_angstrom_delta before < 2 ^ 256"
  shows "unat (ls_approval ls) = unat appr - total_of pa_token_approval before \<and>
    unat (ls_balance ls) = unat bal - total_of pa_token_delta before \<and>
    unat (ls_angstrom_balance ls) = unat ang - total_of pa_angstrom_delta before"
proof -
  let ?xs = "entry_or_nil (pending_actions u) user"
  have "sorted (rev (map prio_of (filter (\<lambda>x. pa_token_address x = token) ?xs)))"
    using assms(1) by (simp add: accounts_sorted_def sorted_filter_rev)
  then have "takeWhile (\<lambda>x. is_higher_priority (order_priority x) prio = Greater)
      (filter (\<lambda>x. pa_token_address x = token) ?xs) = before"
    by (simp add: higher_iff takeWhile_sorted assms(7) conj_commute)
  then have ls: "ls = \<lparr>ls_token = token, ls_approval = saturating_sub appr (of_nat (total_of pa_token_approval before)),
      ls_balance = saturating_sub bal (of_nat (total_of pa_token_delta before)),
      ls_angstrom_balance = saturating_sub ang (of_nat (total_of pa_angstrom_delta before))\<rparr>"
    using assms(2-6) spends_fold [OF assms(8-10), of 0 0 0] by (simp add: try_fetch_live_pending_state_def)
  have "unat (of_nat n :: u256) = n" if "n < 2 ^ 256" for n
    using that unat_of_nat_fits [of n, where 'a = 256] by simp
  with assms(8-10) show ?thesis unfolding ls by simp
qed

section \<open>The pending orders over time\<close>

lemma entry_lookup [simp]:
  "map_of m k = None \<Longrightarrow> entry_or_nil m k = []" "map_of m k = Some xs \<Longrightarrow> entry_or_nil m k = xs"
  by (simp_all add: entry_or_nil_def)

lemma entry_Cons: "entry_or_nil ((k, xs) # m) a = (if a = k then xs else entry_or_nil m a)"
  by (simp add: entry_or_nil_def)

lemma entry_Nil: "entry_or_nil [] a = []"
  by (simp add: entry_or_nil_def)

lemma entry_absent: "k \<notin> fst ` set m \<Longrightarrow> entry_or_nil m k = []"
  by (simp add: map_of_eq_None_iff)

lemma entry_update: "entry_or_nil (AList.update k xs m) j = (if j = k then xs else entry_or_nil m j)"
  by (simp add: entry_or_nil_def update_conv')

lemma cancel_pending:
  "entry_or_nil (pending_actions (snd (accounts_cancel_order user h u))) a =
     (if a = user then filter (\<lambda>x. pa_hash x \<noteq> h) (entry_or_nil (pending_actions u) user)
      else entry_or_nil (pending_actions u) a)"
  by (cases "map_of (pending_actions u) user") (simp_all add: accounts_cancel_order_def entry_update)

lemma cancel_distinct:
  "distinct (map fst (pending_actions u)) \<Longrightarrow>
   distinct (map fst (pending_actions (snd (accounts_cancel_order user h u))))"
  by (simp add: accounts_cancel_order_def distinct_update split: option.split)

lemma cancel_all_pending:
  "entry_or_nil (pending_actions (fold (\<lambda>c u. snd (accounts_cancel_order user (pa_hash c) u)) cs u)) a =
     (if a = user then filter (\<lambda>x. pa_hash x \<notin> pa_hash ` set cs) (entry_or_nil (pending_actions u) user)
      else entry_or_nil (pending_actions u) a)"
  by (induction cs arbitrary: u) (auto simp: cancel_pending intro!: filter_cong)

lemma cancel_all_distinct:
  "distinct (map fst (pending_actions u)) \<Longrightarrow>
   distinct (map fst (pending_actions (fold (\<lambda>c u. snd (accounts_cancel_order user (pa_hash c) u)) cs u)))"
  by (induction cs arbitrary: u) (simp_all add: cancel_distinct)

lemma insert_pending:
  assumes "insert_pending_user_action user act u = Some (bad, u')"
  shows "pending_actions u' =
    AList.update user (sort_by_priority (entry_or_nil (pending_actions u) user @ [act])) (pending_actions u)"
  using assms by (auto simp: insert_pending_user_action_def Let_def bind_eq_Some_conv)

lemma live_state_pending:
  "get_live_state_for_order fu user token prio u = (r, u') \<Longrightarrow> pending_actions u' = pending_actions u"
  by (auto simp: get_live_state_for_order_def load_state_for_def Let_def split: option.splits sum.splits)

lemma fold_delete_entry:
  "entry_or_nil (fold AList.delete ks m) a = (if a \<in> set ks then [] else entry_or_nil m a)"
  by (induction ks arbitrary: m) (auto simp: entry_or_nil_def delete_conv')

lemma fold_delete_distinct: "distinct (map fst m) \<Longrightarrow> distinct (map fst (fold AList.delete ks m))"
  by (induction ks arbitrary: m) (simp_all add: distinct_delete)

lemma entry_retain:
  "distinct (map fst m) \<Longrightarrow>
   entry_or_nil (filter (\<lambda>(a, xs). xs \<noteq> []) (map (\<lambda>(a, xs). (a, filter P xs)) m)) a = filter P (entry_or_nil m a)"
proof (induction m)
  case (Cons kx m)
  obtain k xs where kx: "kx = (k, xs)" by fastforce
  with Cons.prems have fresh: "k \<notin> fst ` set m" and d: "distinct (map fst m)" by auto
  have "entry_or_nil m k = []" using fresh by (rule entry_absent)
  with Cons.IH [OF d] show ?case by (cases "a = k") (simp_all add: kx entry_Cons)
qed (simp add: entry_Nil)

lemma new_block_pending:
  assumes "distinct (map fst (pending_actions u))"
  shows "entry_or_nil (pending_actions (accounts_new_block users completed u)) a =
    (if a \<in> set users then [] else filter (\<lambda>p. pa_hash p \<notin> set completed) (entry_or_nil (pending_actions u) a))"
    "distinct (map fst (pending_actions (accounts_new_block users completed u)))"
  using fold_delete_distinct [OF assms, of users]
  by (simp_all add: accounts_new_block_def Let_def entry_retain fold_delete_entry)
    (auto simp: distinct_map_filter comp_def case_prod_beta intro!: distinct_map_filter)

text \<open>
  The invariant of the accounts: one entry per user, sorted by descending priority, with at most
  one order per nonce.
\<close>

definition one_per_nonce :: "pending_user_action list \<Rightarrow> bool" where
  "one_per_nonce xs \<longleftrightarrow> (\<forall>n. length (filter (\<lambda>p. ovp_respend (order_priority p) = Nonce n) xs) \<le> 1)"

definition accounts_inv :: "user_accounts \<Rightarrow> bool" where
  "accounts_inv u \<longleftrightarrow> distinct (map fst (pending_actions u)) \<and> accounts_sorted u \<and>
     (\<forall>user. one_per_nonce (entry_or_nil (pending_actions u) user))"

lemma one_per_nonce_filter: "one_per_nonce xs \<Longrightarrow> one_per_nonce (filter P xs)"
proof -
  assume one: "one_per_nonce xs"
  have "length (filter Q (filter P xs)) \<le> length (filter Q xs)" for Q
    by (induction xs) auto
  with one show ?thesis unfolding one_per_nonce_def by (meson le_trans)
qed

lemma length_filter_mset: "mset xs = mset ys \<Longrightarrow> length (filter P xs) = length (filter P ys)"
  by (metis mset_filter size_mset)

lemma one_per_nonce_insert:
  assumes "one_per_nonce xs"
    and "\<And>n. ovp_respend (order_priority x) = Nonce n \<Longrightarrow> filter (\<lambda>p. ovp_respend (order_priority p) = Nonce n) xs = []"
  shows "one_per_nonce (sort_by_priority (xs @ [x]))"
proof -
  have "length (filter P (sort_by_priority (xs @ [x]))) = length (filter P (xs @ [x]))" for P
    by (rule length_filter_mset) (rule sort_by_priority_props)
  with assms show ?thesis by (simp add: one_per_nonce_def)
qed

lemma accounts_inv_filter:
  assumes "accounts_inv u" "distinct (map fst (pending_actions u'))"
    and "\<And>a. \<exists>P. entry_or_nil (pending_actions u') a = filter P (entry_or_nil (pending_actions u) a)"
  shows "accounts_inv u'"
  using assms by (auto simp: accounts_inv_def accounts_sorted_def) (metis sorted_filter_rev one_per_nonce_filter)+

lemma cancel_inv: "accounts_inv u \<Longrightarrow> accounts_inv (snd (accounts_cancel_order user h u))"
  by (rule accounts_inv_filter, assumption)
    (auto simp: accounts_inv_def cancel_distinct cancel_pending intro: exI [of _ "\<lambda>_. True"])

lemma cancel_all_inv:
  "accounts_inv u \<Longrightarrow> accounts_inv (fold (\<lambda>c u. snd (accounts_cancel_order user (pa_hash c) u)) cs u)"
  by (induction cs arbitrary: u) (simp_all add: cancel_inv)

lemma new_block_inv: "accounts_inv u \<Longrightarrow> accounts_inv (accounts_new_block users completed u)"
  by (rule accounts_inv_filter, assumption)
    (auto simp: accounts_inv_def new_block_pending intro: exI [of _ "\<lambda>_. False"])

lemma insert_inv:
  assumes "accounts_inv u" "insert_pending_user_action user act u = Some (bad, u')"
    and "\<And>n. ovp_respend (order_priority act) = Nonce n \<Longrightarrow>
      filter (\<lambda>p. ovp_respend (order_priority p) = Nonce n) (entry_or_nil (pending_actions u) user) = []"
  shows "accounts_inv u'"
  using assms(1) one_per_nonce_insert [OF _ assms(3)] sort_by_priority_props(1)
  by (auto simp: accounts_inv_def accounts_sorted_def insert_pending [OF assms(2)] distinct_update entry_update)

lemma can_support_respend:
  "can_support_order v h info ls = Some (Inr act) \<Longrightarrow> ovp_respend (order_priority act) = respend_avoidance_strategy v"
  by (auto simp: can_support_order_def Let_def bind_eq_Some_conv split: if_splits bool.splits)

text \<open>The outcomes of a verification: an error, a currently invalid order, an order with its action.\<close>

lemma verify_order_cases:
  assumes "verify_order fu view hash x info block u = Some (r, u')"
    and "get_live_state_for_order fu (order_from (view x)) (info_token info) (validation_priority (view x) (hash x))
      (fold (\<lambda>c u. snd (accounts_cancel_order (order_from (view x)) (pa_hash c) u))
        (respend_conflicts (order_from (view x)) (respend_avoidance_strategy (view x)) u) u) = (r2, u2)"
  shows "(u' = u \<or> u' = u2) \<and> (\<exists>e. r = Inl e) \<or>
    u' = u2 \<and> (\<exists>y. r = Inr y \<and> currently_invalid y \<noteq> None) \<or>
    (\<exists>ls act bad y. can_support_order (view x) (hash x) info ls = Some (Inr act) \<and>
       insert_pending_user_action (order_from (view x)) act u2 = Some (bad, u') \<and> r = Inr y \<and>
       currently_invalid y = None \<and>
       invalidates y = bad @ map pa_hash (respend_conflicts (order_from (view x)) (respend_avoidance_strategy (view x)) u))"
proof (cases r2)
  case (Inl e)
  with assms show ?thesis by (auto simp: verify_order_def Let_def split: option.splits if_splits)
next
  case (Inr ls)
  note d = verify_order_def into_order_storage_with_data_def Let_def bind_eq_Some_conv
  show ?thesis
  proof (cases "can_support_order (view x) (hash x) info ls")
    case None
    with assms Inr show ?thesis by (auto simp: d split: option.splits if_splits)
  next
    case (Some s)
    with assms Inr show ?thesis
      by (cases s) (auto simp: d split: option.splits if_splits)
  qed
qed

lemma verify_order_inv:
  assumes "accounts_inv u" "verify_order fu view hash x info block u = Some (r, u')"
  shows "accounts_inv u'"
proof -
  let ?v = "view x" and ?h = "hash x"
  let ?cs = "respend_conflicts (order_from ?v) (respend_avoidance_strategy ?v) u"
  let ?u1 = "fold (\<lambda>c u. snd (accounts_cancel_order (order_from ?v) (pa_hash c) u)) ?cs u"
  obtain r2 u2 where live: "get_live_state_for_order fu (order_from ?v) (info_token info) (validation_priority ?v ?h) ?u1 = (r2, u2)"
    by fastforce
  have i1: "accounts_inv ?u1" by (rule cancel_all_inv [OF assms(1)])
  have p2: "pending_actions u2 = pending_actions ?u1" by (rule live_state_pending [OF live])
  have i2: "accounts_inv u2" using i1 by (simp add: accounts_inv_def accounts_sorted_def p2)
  have none: "filter (\<lambda>p. ovp_respend (order_priority p) = Nonce n) (entry_or_nil (pending_actions u2) (order_from ?v)) = []"
    if "respend_avoidance_strategy ?v = Nonce n" for n
    using that by (auto simp: p2 cancel_all_pending respend_conflicts_def filter_empty_conv)
  have "accounts_inv u'" if "can_support_order ?v ?h info ls = Some (Inr act)"
    "insert_pending_user_action (order_from ?v) act u2 = Some (bad, u')" for ls act bad
    by (rule insert_inv [OF i2 that(2)]) (use none can_support_respend [OF that(1)] in simp)
  then show ?thesis using verify_order_cases [OF assms(2) live] assms(1) i2 by blast
qed

text \<open>A history of the accounts: verified orders, cancellations and new blocks.\<close>

inductive accounts_run :: "fetch_utils \<Rightarrow> (all_orders \<Rightarrow> b256) \<Rightarrow> user_accounts \<Rightarrow> bool" for fu hash where
  accounts_start: "accounts_run fu hash user_accounts_new"
| accounts_verify: "accounts_run fu hash u \<Longrightarrow> verify_order fu pool_order_of hash x info block u = Some (r, u') \<Longrightarrow>
    accounts_run fu hash u'"
| accounts_cancel: "accounts_run fu hash u \<Longrightarrow> accounts_run fu hash (snd (accounts_cancel_order user h u))"
| accounts_block: "accounts_run fu hash u \<Longrightarrow> accounts_run fu hash (accounts_new_block users completed u)"

lemma accounts_run_inv: "accounts_run fu hash u \<Longrightarrow> accounts_inv u"
proof (induction rule: accounts_run.induct)
  case accounts_start
  show ?case by (simp add: accounts_inv_def accounts_sorted_def user_accounts_new_def entry_Nil one_per_nonce_def)
qed (simp_all add: verify_order_inv cancel_inv new_block_inv)


section \<open>Orders on the internal balance\<close>

lemma total_of_member: "x \<in> set xs \<Longrightarrow> unat (f x) \<le> total_of f xs"
  by (induction xs) auto

text \<open>An order whose approval is not covered never survives its own insertion.\<close>

lemma short_approval_invalidates:
  assumes "insert_pending_user_action user act u = Some (bad, u')"
    and "map_of (last_known_state u) user = Some st"
    and "map_of (token_approval st) (pa_token_address act) = Some appr"
    and "appr < pa_token_approval act"
  shows "pa_hash act \<in> set bad"
proof -
  let ?xs = "filter (\<lambda>x. pa_token_address x = pa_token_address act) (entry_or_nil (pending_actions u') user)"
  obtain bal ang where bad: "bad = invalidated ?xs appr bal ang False"
    using assms(1-3)
    by (auto simp: insert_pending_user_action_def fetch_all_invalidated_orders_def entry_or_nil_def update_conv'
        Let_def bind_eq_Some_conv)
  obtain n where n: "bad = map pa_hash (drop n ?xs)" "covered (take n ?xs) appr bal ang"
    using invalidated_suffix [of ?xs appr bal ang] bad by auto
  have "act \<in> set ?xs"
    by (simp add: insert_pending [OF assms(1)] entry_update sort_by_priority_props)
  then have "act \<in> set (take n ?xs) \<or> act \<in> set (drop n ?xs)"
    by (metis append_take_drop_id set_append Un_iff)
  moreover have "act \<notin> set (take n ?xs)"
  proof
    assume "act \<in> set (take n ?xs)"
    then have "unat (pa_token_approval act) \<le> total_of pa_token_approval (take n ?xs)"
      by (rule total_of_member)
    with n(2) assms(4) show False by (simp add: covered_def word_less_nat_alt)
  qed
  ultimately show ?thesis using n(1) by auto
qed

lemma verify_order_accepted:
  assumes "verify_order fu view hash x info block u = Some (Inr y, u')" "currently_invalid y = None"
  shows "\<exists>u2 ls act bad cs. can_support_order (view x) (hash x) info ls = Some (Inr act) \<and>
    insert_pending_user_action (order_from (view x)) act u2 = Some (bad, u') \<and> invalidates y = bad @ cs"
  using verify_order_cases [OF assms(1) surjective_pairing] assms(2) by fastforce

lemma insert_known: "insert_pending_user_action user act u = Some (bad, u') \<Longrightarrow> last_known_state u' = last_known_state u"
  by (auto simp: insert_pending_user_action_def Let_def bind_eq_Some_conv)

lemma can_support_action:
  assumes "can_support_order v h info ls = Some (Inr act)" "fetch_amount_in v = Some amt"
  shows "pa_token_approval act = amt" "pa_token_address act = info_token info" "pa_hash act = h"
    "use_internal v \<Longrightarrow> amt \<le> ls_angstrom_balance ls"
  using assms by (auto simp: can_support_order_def pa_hash_def split: if_splits bool.splits)

text \<open>
  C18. An order that pays from the user's balance inside the contract is checked against that
  balance alone, but its amount is charged to the token's approval too: if the approval is smaller than
  the amount, the order that has just been accepted as valid is in its own list of invalidated
  orders.
\<close>
theorem internal_order_invalidates_itself:
  assumes "verify_order fu view hash x info block u = Some (Inr y, u')" "currently_invalid y = None"
    and "use_internal (view x)" "fetch_amount_in (view x) = Some amt"
    and "map_of (last_known_state u') (order_from (view x)) = Some st"
    and "map_of (token_approval st) (info_token info) = Some appr" "appr < amt"
  shows "hash x \<in> set (invalidates y)"
proof -
  obtain u2 ls act bad cs where act: "can_support_order (view x) (hash x) info ls = Some (Inr act)"
      "insert_pending_user_action (order_from (view x)) act u2 = Some (bad, u')" "invalidates y = bad @ cs"
    using verify_order_accepted [OF assms(1,2)] by blast
  note a = can_support_action [OF act(1) assms(4)]
  have "pa_hash act \<in> set bad"
    by (rule short_approval_invalidates [OF act(2), of st appr])
      (use assms(5-7) a insert_known [OF act(2)] in simp_all)
  with a(3) act(3) show ?thesis by simp
qed

section \<open>The nonce bitmap\<close>

lemma is_valid_nonce_bit:
  "is_valid_nonce keccak storage user nonce \<longleftrightarrow>
     \<not> bit (storage (get_nonce_word_slot keccak user nonce)) (unat (ucast nonce :: u8))"
proof -
  let ?w = "storage (get_nonce_word_slot keccak user nonce)" and ?n = "unat (ucast nonce :: u8)"
  have n: "?n < 256" using unat_lt2p [of "ucast nonce :: u8"] by simp
  have "and (xor ?w (push_bit ?n 1)) (push_bit ?n 1) = (push_bit ?n 1 :: u256) \<longleftrightarrow> \<not> bit ?w ?n"
  proof
    assume "and (xor ?w (push_bit ?n 1)) (push_bit ?n 1) = (push_bit ?n 1 :: u256)"
    then have "bit (and (xor ?w (push_bit ?n 1)) (push_bit ?n 1)) ?n = bit (push_bit ?n 1 :: u256) ?n" by simp
    then show "\<not> bit ?w ?n" using n by (simp add: bit_and_iff bit_xor_iff bit_exp_iff)
  next
    assume "\<not> bit ?w ?n"
    then show "and (xor ?w (push_bit ?n 1)) (push_bit ?n 1) = (push_bit ?n 1 :: u256)"
      by (intro bit_word_eqI) (auto simp: bit_and_iff bit_xor_iff bit_exp_iff)
  qed
  then show ?thesis by (simp add: is_valid_nonce_def)
qed

lemma map_upt_eq: "map f [0..<n] = map g [0..<n] \<longleftrightarrow> (\<forall>i<n. f i = g i)"
  by (auto simp: map_eq_conv)

lemma byte_bit: "bit (ucast (drop_bit (8 * k) a) :: u8) j \<longleftrightarrow> j < 8 \<and> bit a (8 * k + j)" for a :: "'a::len word"
  by (auto simp: bit_ucast_iff bit_drop_bit_eq dest: bit_imp_le_length)

text \<open>Words of n bytes are equal if their bytes are.\<close>

lemma bytes_eq_iff:
  fixes a b :: "'a::len word"
  assumes "LENGTH('a) = 8 * n"
  shows "map (\<lambda>i. ucast (drop_bit (8 * (n - 1 - i)) a) :: u8) [0..<n] =
      map (\<lambda>i. ucast (drop_bit (8 * (n - 1 - i)) b)) [0..<n] \<longleftrightarrow> a = b"
proof
  assume eq: "map (\<lambda>i. ucast (drop_bit (8 * (n - 1 - i)) a) :: u8) [0..<n] =
      map (\<lambda>i. ucast (drop_bit (8 * (n - 1 - i)) b)) [0..<n]"
  show "a = b"
  proof (rule bit_word_eqI)
    fix m assume "m < LENGTH('a)"
    with assms have k: "m div 8 < n" by auto
    then have i: "n - 1 - m div 8 < n" "n - 1 - (n - 1 - m div 8) = m div 8" by auto
    have "(ucast (drop_bit (8 * (m div 8)) a) :: u8) = ucast (drop_bit (8 * (m div 8)) b)"
      using eq [unfolded map_upt_eq] i by metis
    then have "bit (ucast (drop_bit (8 * (m div 8)) a) :: u8) (m mod 8) =
        bit (ucast (drop_bit (8 * (m div 8)) b) :: u8) (m mod 8)" by simp
    then show "bit a m = bit b m" by (simp only: byte_bit) simp
  qed
qed simp

lemma to_be_bytes_split: "to_be_bytes n = take 7 (to_be_bytes n) @ [ucast n]"
  by (simp add: to_be_bytes_def upt_rec)

text \<open>
  C19. A nonce is unused exactly if one bit is clear, and no two nonces share that bit, of one user or of
  two: the preimage of its slot together with the position of the bit determine the user and the
  nonce.
\<close>
theorem nonce_bit_unique:
  "(is_valid_nonce keccak storage user nonce \<longleftrightarrow>
      \<not> bit (storage (keccak (nonce_word_key user nonce))) (unat (ucast nonce :: u8))) \<and>
   (nonce_word_key user nonce = nonce_word_key user' nonce' \<and> (ucast nonce :: u8) = ucast nonce' \<longleftrightarrow>
      user = user' \<and> nonce = nonce')"
proof -
  have addr: "address_bytes user = address_bytes user' \<longleftrightarrow> user = user'"
    using bytes_eq_iff [of 20 user user'] by (simp add: address_bytes_def)
  have be: "to_be_bytes nonce = to_be_bytes nonce' \<longleftrightarrow> nonce = nonce'"
    using bytes_eq_iff [of 8 nonce nonce'] by (simp add: to_be_bytes_def)
  have "length (address_bytes user) = length (address_bytes user')" by (simp add: address_bytes_def)
  then have "nonce_word_key user nonce = nonce_word_key user' nonce' \<longleftrightarrow>
      user = user' \<and> take 7 (to_be_bytes nonce) = take 7 (to_be_bytes nonce')"
    by (simp add: nonce_word_key_def addr)
  moreover have "nonce = nonce' \<longleftrightarrow> take 7 (to_be_bytes nonce) = take 7 (to_be_bytes nonce') \<and> (ucast nonce :: u8) = ucast nonce'"
    by (metis be to_be_bytes_split append1_eq_conv)
  ultimately show ?thesis by (auto simp: is_valid_nonce_bit get_nonce_word_slot_def)
qed

text \<open>Witness inputs: a user with one pending order of 60 tokens, and with 100 of everything.\<close>

definition sample_action :: "b256 \<Rightarrow> u64 \<Rightarrow> u256 \<Rightarrow> pending_user_action" where
  "sample_action h n amt = \<lparr>order_priority = \<lparr>ovp_order_hash = h, ovp_is_tob = False, ovp_is_partial = False,
       ovp_respend = Nonce n\<rparr>, pa_token_address = 3, pa_token_delta = amt, pa_token_approval = amt,
     pa_angstrom_delta = 0, pa_pool_info = \<lparr>info_token = 3, info_is_bid = True, info_pool_id = 7\<rparr>\<rparr>"

definition sample_baseline :: baseline_state where
  "sample_baseline = \<lparr>token_approval = [(3, 100)], token_balance = [(3, 100)], angstrom_balance = [(3, 100)]\<rparr>"

definition sample_accounts :: user_accounts where
  "sample_accounts = \<lparr>pending_actions = [(1, [sample_action 20 1 60])], last_known_state = [(1, sample_baseline)]\<rparr>"

lemma sample_action_token: "pa_token_address (sample_action h n amt) = 3"
  by (simp add: sample_action_def)

lemmas sample_accounts_defs = sample_accounts_def sample_baseline_def sample_action_def


theorem live_state_exact_witness:
  "\<exists>ls. try_fetch_live_pending_state 1 3 \<lparr>ovp_order_hash = 10, ovp_is_tob = False, ovp_is_partial = False,
       ovp_respend = Nonce 2\<rparr> sample_accounts = Some ls \<and> unat (ls_balance ls) = 40"
proof -
  let ?p = "\<lparr>ovp_order_hash = 10, ovp_is_tob = False, ovp_is_partial = False, ovp_respend = Nonce 2\<rparr>"
  obtain ls where run: "try_fetch_live_pending_state 1 3 ?p sample_accounts = Some ls"
    by (simp add: try_fetch_live_pending_state_def sample_accounts_def sample_baseline_def split_def Let_def)
  have before: "[sample_action 20 1 60] = filter (\<lambda>x. pa_token_address x = 3 \<and>
      is_higher_priority (order_priority x) ?p = Greater) (entry_or_nil (pending_actions sample_accounts) 1)"
    by (simp add: sample_accounts_defs entry_or_nil_def is_higher_priority_def cmp_def)
  have "accounts_sorted sample_accounts"
    by (simp add: accounts_sorted_def sample_accounts_def entry_or_nil_def)
  from live_state_exact [OF this run _ _ _ _ before, of sample_baseline 100 100 100] run show ?thesis
    by (simp add: sample_accounts_defs)
qed

text \<open>The chain answers that nonces are unused, and gives every user an approval and a balance.\<close>

definition sample_fetch :: "u256 \<Rightarrow> u256 \<Rightarrow> fetch_utils" where
  "sample_fetch appr bal = \<lparr>fu_is_valid_nonce = (\<lambda>_ _. Inr True),
     fetch_approval_balance_for_token = (\<lambda>_ _. Inr (Some appr)), fetch_balance_for_token = (\<lambda>_ _. Inr bal)\<rparr>"

definition sample_info :: user_order_pool_info where
  "sample_info = \<lparr>info_token = 3, info_is_bid = True, info_pool_id = 7\<rparr>"

definition sample_internal :: pool_order where
  "sample_internal = \<lparr>max_gas_token_0 = 0, order_from = 1, amount = 5, min_amount = 5, limit_price = Some 1,
     deadline = None, flash_block = None, respend_avoidance_strategy = Nonce 2, token_in = 3, token_out = 2,
     order_location = Limit, use_internal = True, exact_in = True, has_hook = False, is_tob = False\<rparr>"

lemmas verify_run_defs = verify_order_def check_respend_def respend_conflicts_def get_live_state_for_order_def
  try_fetch_live_pending_state_def load_state_for_def can_support_order_def fetch_amount_in_def
  insert_pending_user_action_def fetch_all_invalidated_orders_def into_order_storage_with_data_def
  user_accounts_new_def default_baseline_def sample_fetch_def sample_info_def sort_by_priority_def
  underflow_sub_def pa_hash_def entry_or_nil_def saturating_sub_def Let_def

theorem internal_order_invalidates_itself_witness:
  "\<exists>y u'. verify_order (sample_fetch 4 10) (\<lambda>x. x) (\<lambda>_. 77) sample_internal sample_info 3 user_accounts_new =
      Some (Inr y, u') \<and> currently_invalid y = None \<and> 77 \<in> set (invalidates y)"
proof -
  obtain y u' where run: "verify_order (sample_fetch 4 10) (\<lambda>x. x) (\<lambda>_. 77) sample_internal sample_info 3
      user_accounts_new = Some (Inr y, u')" "currently_invalid y = None"
      "last_known_state u' = [(1, \<lparr>token_approval = [(3, 4)], token_balance = [(3, 10)], angstrom_balance = [(3, 10)]\<rparr>)]"
    by (simp add: verify_run_defs sample_internal_def is_bid_def)
  have "fetch_amount_in sample_internal = Some 5"
    by (simp add: fetch_amount_in_def sample_internal_def is_bid_def)
  from internal_order_invalidates_itself [OF run(1,2) _ this, of _ 4] run show ?thesis
    by (simp add: sample_internal_def sample_info_def)
qed


end
