(* ===== verification/Pool_Controller.thy ===== *)
theory Pool_Controller
  imports User_Accounts
begin

text \<open>
  The pools and nodes a controller configures on chain: the packed entries
  (\<^verbatim>\<open>contracts/src/types/ConfigEntry.sol\<close>), the buffer they are edited in
  (\<^verbatim>\<open>types/ConfigBuffer.sol\<close>), the calls of the exchange that change them
  (\<^verbatim>\<open>modules/TopLevelAuth.sol\<close>), and the controller (\<^verbatim>\<open>periphery/ControllerV1.sol\<close>).

  A revert is None and undoes everything. A mapping with default zero is a function. The store is
  the list of its entries, and its address a number that grows with every deployment. Array indices
  are natural numbers: an array never reaches $2^{256}$ entries. The enumerable set and the owner
  check of the library Solady are a set and a comparison. The bounds on tick spacings are
  constants of Uniswap and are a parameter.

  Shown here: packing and unpacking agree, the controller's list of pools and its indices stay in step
  with the store, and a batch update always reverts.
\<close>

section \<open>Entries\<close>

type_synonym u16 = "16 word"
type_synonym u24 = "24 word"
type_synonym store_key = "216 word"

text \<open>A key is the last 27 bytes of the hash of the two addresses, each padded to 32 bytes.\<close>

definition abi_word :: "address \<Rightarrow> u8 list" where
  "abi_word a = replicate 12 0 @ address_bytes a"

definition key_from_assets :: "(u8 list \<Rightarrow> b256) \<Rightarrow> address \<Rightarrow> address \<Rightarrow> store_key" where
  "key_from_assets keccak a b = ucast (keccak (abi_word a @ abi_word b))"

definition max_fee :: u24 where "max_fee = 200000"
definition max_unlock_fee_bps :: u24 where "max_unlock_fee_bps = 400000"
definition max_fee_bps :: u24 where "max_fee_bps = 10000"

definition ce_key :: "u256 \<Rightarrow> store_key" where
  "ce_key e = ucast (drop_bit 40 e)"

definition ce_tick_spacing :: "u256 \<Rightarrow> u16" where
  "ce_tick_spacing e = ucast (and 0xffff (drop_bit 24 e))"

definition ce_bundle_fee :: "u256 \<Rightarrow> u24" where
  "ce_bundle_fee e = ucast (and 0xffffff e)"

definition check_tick_spacing :: "nat \<times> nat \<Rightarrow> u16 \<Rightarrow> bool" where
  "check_tick_spacing lim s \<longleftrightarrow> \<not> (unat s < fst lim \<or> snd lim < unat s)"

definition check_bundle_fee :: "u24 \<Rightarrow> bool" where
  "check_bundle_fee f \<longleftrightarrow> \<not> max_fee < f"

definition set_tick_spacing :: "nat \<times> nat \<Rightarrow> u16 \<Rightarrow> u256 \<Rightarrow> u256 option" where
  "set_tick_spacing lim s e =
     (if check_tick_spacing lim s then
        Some (xor e (push_bit 24 (ucast (xor s (ce_tick_spacing e)))))
      else None)"

definition set_bundle_fee :: "u24 \<Rightarrow> u256 \<Rightarrow> u256 option" where
  "set_bundle_fee f e =
     (if check_bundle_fee f then Some (xor e (ucast (xor f (ce_bundle_fee e)))) else None)"

definition entry_init :: "nat \<times> nat \<Rightarrow> store_key \<Rightarrow> u16 \<Rightarrow> u24 \<Rightarrow> u256 option" where
  "entry_init lim k s f =
     (if check_tick_spacing lim s \<and> check_bundle_fee f then
        do { e \<leftarrow> set_tick_spacing lim s (push_bit 40 (ucast k)); set_bundle_fee f e }
      else None)"

lemma bit_beyond: "LENGTH('a) \<le> n \<Longrightarrow> \<not> bit (w :: 'a::len word) n"
  using bit_imp_le_length by fastforce

lemma bit_ce_tick_spacing: "bit (ce_tick_spacing e) n \<longleftrightarrow> n < 16 \<and> bit e (n + 24)"
proof -
  have "(0xffff :: u256) = mask 16" by (simp add: mask_eq_exp_minus_1)
  then show ?thesis unfolding ce_tick_spacing_def
    by (simp only: bit_ucast_iff bit_and_iff bit_mask_iff bit_drop_bit_eq) (auto simp: ac_simps)
qed

lemma bit_ce_bundle_fee: "bit (ce_bundle_fee e) n \<longleftrightarrow> n < 24 \<and> bit e n"
proof -
  have "(0xffffff :: u256) = mask 24" by (simp add: mask_eq_exp_minus_1)
  then show ?thesis unfolding ce_bundle_fee_def
    by (simp only: bit_ucast_iff bit_and_iff bit_mask_iff) auto
qed

lemma bit_ce_key: "bit (ce_key e) n \<longleftrightarrow> n < 216 \<and> bit e (n + 40)"
  by (auto simp: ce_key_def bit_ucast_iff bit_drop_bit_eq ac_simps)

lemma bit_set_tick_spacing:
  "set_tick_spacing lim s e = Some e' \<Longrightarrow>
   bit e' n \<longleftrightarrow> (if 24 \<le> n \<and> n < 40 then bit s (n - 24) else bit e n)"
  by (auto simp: set_tick_spacing_def bit_xor_iff bit_push_bit_iff bit_ucast_iff bit_ce_tick_spacing
      bit_beyond split: if_splits)

lemma bit_set_bundle_fee:
  "set_bundle_fee f e = Some e' \<Longrightarrow> bit e' n \<longleftrightarrow> (if n < 24 then bit f n else bit e n)"
  by (auto simp: set_bundle_fee_def bit_xor_iff bit_ucast_iff bit_ce_bundle_fee
      bit_beyond split: if_splits)

lemmas bit_entry = bit_ce_tick_spacing bit_ce_bundle_fee bit_ce_key

lemma set_tick_spacing_fields:
  assumes "set_tick_spacing lim s e = Some e'"
  shows "ce_tick_spacing e' = s" "ce_bundle_fee e' = ce_bundle_fee e" "ce_key e' = ce_key e"
  by (rule bit_word_eqI; simp add: bit_entry bit_set_tick_spacing [OF assms])+

lemma set_bundle_fee_fields:
  assumes "set_bundle_fee f e = Some e'"
  shows "ce_bundle_fee e' = f" "ce_tick_spacing e' = ce_tick_spacing e" "ce_key e' = ce_key e"
  by (rule bit_word_eqI; simp add: bit_entry bit_set_bundle_fee [OF assms])+

lemma ce_key_shift: "ce_key (push_bit 40 (ucast k)) = k"
  by (rule bit_word_eqI) (simp add: bit_ce_key bit_push_bit_iff bit_ucast_iff)

text \<open>
  C20. A packed entry gives back the key, the tick spacing and the fee it was made from, and
  changing the fee of an entry leaves its key and its tick spacing alone.
\<close>
theorem entry_unpacks:
  assumes "entry_init lim k s f = Some e" "set_bundle_fee f' e = Some e'"
  shows "ce_key e = k \<and> ce_tick_spacing e = s \<and> ce_bundle_fee e = f \<and>
    ce_key e' = k \<and> ce_tick_spacing e' = s \<and> ce_bundle_fee e' = f'"
proof -
  obtain e0 where e0: "set_tick_spacing lim s (push_bit 40 (ucast k)) = Some e0" "set_bundle_fee f e0 = Some e"
    using assms(1) by (auto simp: entry_init_def bind_eq_Some_conv split: if_splits)
  then show ?thesis
    using set_tick_spacing_fields [OF e0(1)] set_bundle_fee_fields [OF e0(2)] set_bundle_fee_fields [OF assms(2)]
    by (simp add: ce_key_shift)
qed

theorem entry_unpacks_witness:
  "\<exists>e e'. entry_init (1, 32767) 77 60 3000 = Some e \<and> set_bundle_fee 500 e = Some e' \<and>
     ce_key e = 77 \<and> ce_tick_spacing e' = 60 \<and> ce_bundle_fee e' = 500"
proof -
  obtain e e' where "entry_init (1, 32767) 77 60 3000 = Some e" "set_bundle_fee 500 e = Some e'"
    by (simp add: entry_init_def set_tick_spacing_def set_bundle_fee_def check_tick_spacing_def check_bundle_fee_def
        max_fee_def)
  with entry_unpacks [OF this] show ?thesis by blast
qed

section \<open>The exchange\<close>

record top_level_auth =
  auth_controller :: address
  is_node :: "address \<Rightarrow> bool"
  unlocked_fee_packed_set :: "store_key \<Rightarrow> u256"
  last_block_updated :: u64
  config_store :: "u256 list"
  store_address :: nat

definition auth_new :: "address \<Rightarrow> top_level_auth" where
  "auth_new c = \<lparr>auth_controller = c, is_node = (\<lambda>_. False), unlocked_fee_packed_set = (\<lambda>_. 0),
     last_block_updated = 0, config_store = [], store_address = 0\<rparr>"

definition only_controller :: "address \<Rightarrow> top_level_auth \<Rightarrow> unit option" where
  "only_controller caller a = (if caller = auth_controller a then Some () else None)"

definition auth_set_controller :: "address \<Rightarrow> address \<Rightarrow> top_level_auth \<Rightarrow> top_level_auth option" where
  "auth_set_controller caller c a = do { only_controller caller a; Some (a\<lparr>auth_controller := c\<rparr>) }"

text \<open>The search for the first entry with a key.\<close>

fun find_entry :: "store_key \<Rightarrow> u256 list \<Rightarrow> nat option" where
  "find_entry k [] = None"
| "find_entry k (e # es) = (if ce_key e = k then Some 0 else map_option Suc (find_entry k es))"

definition store_from_buffer :: "u256 list \<Rightarrow> top_level_auth \<Rightarrow> top_level_auth" where
  "store_from_buffer es a = a\<lparr>config_store := es, store_address := Suc (store_address a)\<rparr>"

definition set_unlocked_fee :: "store_key \<Rightarrow> u24 \<Rightarrow> top_level_auth \<Rightarrow> top_level_auth option" where
  "set_unlocked_fee k f a =
     (if max_unlock_fee_bps < f then None
      else Some (a\<lparr>unlocked_fee_packed_set := (unlocked_fee_packed_set a)(k := or (push_bit 1 (ucast f)) 1)\<rparr>))"

definition unset_unlocked_fee :: "store_key \<Rightarrow> top_level_auth \<Rightarrow> top_level_auth" where
  "unset_unlocked_fee k a = a\<lparr>unlocked_fee_packed_set := (unlocked_fee_packed_set a)(k := 0)\<rparr>"

definition unlocked_fee :: "(u8 list \<Rightarrow> b256) \<Rightarrow> address \<Rightarrow> address \<Rightarrow> top_level_auth \<Rightarrow> u24 option" where
  "unlocked_fee keccak a0 a1 a =
     (let packed = unlocked_fee_packed_set a (key_from_assets keccak a0 a1)
      in if and packed 1 = 0 then None else Some (ucast (drop_bit 1 packed)))"

text \<open>
  The validation of the unlocked fee against the largest fee of Uniswap, one million, is implied by
  the check in \<^const>\<open>set_unlocked_fee\<close>.
\<close>

definition auth_configure_pool :: "(u8 list \<Rightarrow> b256) \<Rightarrow> nat \<times> nat \<Rightarrow> address \<Rightarrow> address \<Rightarrow> address \<Rightarrow>
    u16 \<Rightarrow> u24 \<Rightarrow> u24 \<Rightarrow> top_level_auth \<Rightarrow> top_level_auth option" where
  "auth_configure_pool keccak lim caller a0 a1 spacing fee ufee a =
     do { only_controller caller a;
          if a0 \<ge> a1 then None
          else
            let k = key_from_assets keccak a0 a1; es = config_store a
            in do { es' \<leftarrow> (case find_entry k es of
                              Some i \<Rightarrow> do { e \<leftarrow> set_tick_spacing lim spacing (es ! i);
                                            e' \<leftarrow> set_bundle_fee fee e; Some (es[i := e']) }
                            | None \<Rightarrow> do { e \<leftarrow> entry_init lim k spacing fee; Some (es @ [e]) });
                    set_unlocked_fee k ufee (store_from_buffer es' a) } }"

definition remove_entry :: "store_key \<Rightarrow> nat \<Rightarrow> u256 list \<Rightarrow> u256 list option" where
  "remove_entry k i es =
     (if length es \<le> i then None
      else if ce_key (es ! i) \<noteq> k then None
      else let n = length es - 1
           in Some (take n (if i < n then es[i := es ! n] else es)))"

definition auth_remove_pool :: "address \<Rightarrow> store_key \<Rightarrow> nat \<Rightarrow> nat \<Rightarrow> top_level_auth \<Rightarrow> top_level_auth option" where
  "auth_remove_pool caller k expected i a =
     do { only_controller caller a;
          if store_address a \<noteq> expected then None
          else do { es \<leftarrow> remove_entry k i (config_store a);
                    Some (unset_unlocked_fee k (store_from_buffer es a)) } }"

definition buffer_get :: "store_key \<Rightarrow> nat \<Rightarrow> u256 list \<Rightarrow> u256 option" where
  "buffer_get k i es = (if length es \<le> i then None else if ce_key (es ! i) \<noteq> k then None else Some (es ! i))"

record config_entry_update =
  upd_index :: nat
  upd_key :: store_key
  upd_bundle_fee :: u24
  upd_unlocked_fee :: u24

fun apply_updates :: "config_entry_update list \<Rightarrow> u256 list \<Rightarrow> top_level_auth \<Rightarrow> (u256 list \<times> top_level_auth) option" where
  "apply_updates [] es a = Some (es, a)"
| "apply_updates (x # xs) es a =
     do { e \<leftarrow> buffer_get (upd_key x) (upd_index x) es;
          e' \<leftarrow> set_bundle_fee (upd_bundle_fee x) e;
          a' \<leftarrow> set_unlocked_fee (upd_key x) (upd_unlocked_fee x) a;
          apply_updates xs (es[upd_index x := e']) a' }"

definition auth_batch_update_pools :: "address \<Rightarrow> nat \<Rightarrow> config_entry_update list \<Rightarrow> top_level_auth \<Rightarrow> top_level_auth option" where
  "auth_batch_update_pools caller expected xs a =
     do { only_controller caller a;
          if store_address a \<noteq> expected then None
          else do { (es, a') \<leftarrow> apply_updates xs (config_store a) a; Some (store_from_buffer es a') } }"

definition toggle_nodes :: "address \<Rightarrow> address list \<Rightarrow> top_level_auth \<Rightarrow> top_level_auth option" where
  "toggle_nodes caller ns a =
     do { only_controller caller a;
          Some (a\<lparr>is_node := fold (\<lambda>n f. f(n := \<not> f n)) ns (is_node a)\<rparr>) }"

text \<open>The signature of the attestation is checked by a library; the block number fits 64 bits.\<close>

definition unlock_with_empty_attestation :: "(address \<Rightarrow> u64 \<Rightarrow> u8 list \<Rightarrow> bool) \<Rightarrow> u64 \<Rightarrow> address \<Rightarrow> u8 list \<Rightarrow>
    top_level_auth \<Rightarrow> top_level_auth option" where
  "unlock_with_empty_attestation valid_sig block node sig a =
     (if last_block_updated a = block then None
      else if \<not> is_node a node then None
      else if \<not> valid_sig node block sig then None
      else Some (a\<lparr>last_block_updated := block\<rparr>))"

definition node_bundle_lock :: "u64 \<Rightarrow> address \<Rightarrow> top_level_auth \<Rightarrow> top_level_auth option" where
  "node_bundle_lock block caller a =
     (if last_block_updated a = block then None
      else if \<not> is_node a caller then None
      else Some (a\<lparr>last_block_updated := block\<rparr>))"

section \<open>The controller\<close>

datatype controller_event =
    NewControllerSet address
  | NewControllerAccepted address
  | PoolConfigured address address u16 u24 u24
  | OpaqueBatchPoolUpdate
  | PoolRemoved address address u16 u24
  | NodeAdded address
  | NodeRemoved address

record controller_v1 =
  ctl_owner :: address
  ctl_set_controller :: address
  ctl_nodes :: "address set"
  ctl_pools :: "(address \<times> address) list"
  pool_indices :: "store_key \<Rightarrow> nat"
  angstrom :: top_level_auth
  ctl_events :: "controller_event list"

text \<open>The address of the controller itself is \<^verbatim>\<open>self\<close>.\<close>

definition controller_new :: "address \<Rightarrow> address \<Rightarrow> controller_v1" where
  "controller_new self own = \<lparr>ctl_owner = own, ctl_set_controller = 0, ctl_nodes = {}, ctl_pools = [],
     pool_indices = (\<lambda>_. 0), angstrom = auth_new self, ctl_events = []\<rparr>"

definition check_owner :: "address \<Rightarrow> controller_v1 \<Rightarrow> unit option" where
  "check_owner caller c = (if caller = ctl_owner c then Some () else None)"

definition check_node_or_owner :: "address \<Rightarrow> controller_v1 \<Rightarrow> unit option" where
  "check_node_or_owner caller c =
     (if caller \<in> ctl_nodes c then Some () else if ctl_owner c = caller then Some () else None)"

definition emit :: "controller_event \<Rightarrow> controller_v1 \<Rightarrow> controller_v1" where
  "emit ev c = c\<lparr>ctl_events := ctl_events c @ [ev]\<rparr>"

definition set_new_controller :: "address \<Rightarrow> address \<Rightarrow> controller_v1 \<Rightarrow> controller_v1 option" where
  "set_new_controller caller n c =
     do { check_owner caller c; Some (emit (NewControllerSet n) (c\<lparr>ctl_set_controller := n\<rparr>)) }"

definition accept_new_controller :: "address \<Rightarrow> address \<Rightarrow> controller_v1 \<Rightarrow> controller_v1 option" where
  "accept_new_controller self caller c =
     (if caller \<noteq> ctl_set_controller c then None
      else let c1 = emit (NewControllerAccepted caller) (c\<lparr>ctl_set_controller := 0\<rparr>)
           in do { a \<leftarrow> auth_set_controller self caller (angstrom c1); Some (c1\<lparr>angstrom := a\<rparr>) })"

definition sort_pair :: "address \<Rightarrow> address \<Rightarrow> address \<times> address" where
  "sort_pair a b = (if b < a then (b, a) else (a, b))"

definition configure_pool :: "(u8 list \<Rightarrow> b256) \<Rightarrow> nat \<times> nat \<Rightarrow> address \<Rightarrow> address \<Rightarrow> address \<Rightarrow> address \<Rightarrow>
    u16 \<Rightarrow> u24 \<Rightarrow> u24 \<Rightarrow> controller_v1 \<Rightarrow> controller_v1 option" where
  "configure_pool keccak lim self caller x y spacing fee ufee c =
     do { check_owner caller c;
          if max_fee_bps < fee then None
          else if max_fee_bps < ufee then None
          else
            let (a0, a1) = sort_pair x y; k = key_from_assets keccak a0 a1;
                c1 = (if pool_indices c k = 0 then
                        c\<lparr>ctl_pools := ctl_pools c @ [(a0, a1)],
                          pool_indices := (pool_indices c)(k := Suc (length (ctl_pools c)))\<rparr>
                      else c);
                c2 = emit (PoolConfigured a0 a1 spacing fee ufee) c1
            in do { a \<leftarrow> auth_configure_pool keccak lim self a0 a1 spacing fee ufee (angstrom c2);
                    Some (c2\<lparr>angstrom := a\<rparr>) } }"

text \<open>The lookup of an entry by key and index: an empty entry reverts.\<close>

definition store_get :: "store_key \<Rightarrow> nat \<Rightarrow> u256 list \<Rightarrow> (u16 \<times> u24) option" where
  "store_get k i es =
     (let e = (if length es \<le> i then 0 else es ! i); e' = (if ce_key e = k then e else 0)
      in if e' = 0 then None else Some (ce_tick_spacing e', ce_bundle_fee e'))"

definition remove_pool :: "(u8 list \<Rightarrow> b256) \<Rightarrow> address \<Rightarrow> address \<Rightarrow> address \<Rightarrow> address \<Rightarrow> controller_v1 \<Rightarrow> controller_v1 option" where
  "remove_pool keccak self caller x y c =
     do { check_owner caller c;
          let (a0, a1) = sort_pair x y; k = key_from_assets keccak a0 a1; ip1 = pool_indices c k
          in if ip1 = 0 then None
             else
               let i = ip1 - 1; n = length (ctl_pools c);
                   c1 = (if ip1 < n then
                           let lp = ctl_pools c ! (n - 1); lk = key_from_assets keccak (fst lp) (snd lp)
                           in c\<lparr>ctl_pools := (ctl_pools c)[i := lp], pool_indices := (pool_indices c)(lk := ip1)\<rparr>
                         else c);
                   c2 = c1\<lparr>pool_indices := (pool_indices c1)(k := 0), ctl_pools := butlast (ctl_pools c1)\<rparr>
               in do { (ts, bf) \<leftarrow> store_get k i (config_store (angstrom c2));
                       let c3 = emit (PoolRemoved a0 a1 ts bf) c2;
                       a \<leftarrow> auth_remove_pool self k (store_address (angstrom c3)) i (angstrom c3);
                       Some (c3\<lparr>angstrom := a\<rparr>) } }"

record pool_update =
  pu_asset_a :: address
  pu_asset_b :: address
  pu_bundle_fee :: u24
  pu_unlocked_fee :: u24

text \<open>The subtraction from a missing index is checked and reverts.\<close>

definition update_of :: "(u8 list \<Rightarrow> b256) \<Rightarrow> controller_v1 \<Rightarrow> pool_update \<Rightarrow> config_entry_update option" where
  "update_of keccak c u =
     (if max_fee_bps < pu_bundle_fee u then None
      else if max_fee_bps < pu_unlocked_fee u then None
      else
        let (a0, a1) = (pu_asset_a u, pu_asset_b u);
            (b0, b1) = (if a1 > a0 then (a1, a0) else (a0, a1));
            k = key_from_assets keccak b0 b1
        in if pool_indices c k = 0 then None
           else Some \<lparr>upd_index = pool_indices c k - 1, upd_key = k, upd_bundle_fee = pu_bundle_fee u,
                      upd_unlocked_fee = pu_unlocked_fee u\<rparr>)"

fun entry_updates :: "(u8 list \<Rightarrow> b256) \<Rightarrow> controller_v1 \<Rightarrow> pool_update list \<Rightarrow> config_entry_update list option" where
  "entry_updates keccak c [] = Some []"
| "entry_updates keccak c (u # us) = do { x \<leftarrow> update_of keccak c u; xs \<leftarrow> entry_updates keccak c us; Some (x # xs) }"

definition batch_update_pools :: "(u8 list \<Rightarrow> b256) \<Rightarrow> address \<Rightarrow> address \<Rightarrow> pool_update list \<Rightarrow> controller_v1 \<Rightarrow> controller_v1 option" where
  "batch_update_pools keccak self caller us c =
     do { check_node_or_owner caller c;
          xs \<leftarrow> entry_updates keccak c us;
          let c1 = emit OpaqueBatchPoolUpdate c;
          a \<leftarrow> auth_batch_update_pools self (store_address (angstrom c1)) xs (angstrom c1);
          Some (c1\<lparr>angstrom := a\<rparr>) }"

definition add_node :: "address \<Rightarrow> address \<Rightarrow> address \<Rightarrow> controller_v1 \<Rightarrow> controller_v1 option" where
  "add_node self caller node c =
     do { check_owner caller c;
          if node \<in> ctl_nodes c then None
          else let c1 = emit (NodeAdded node) (c\<lparr>ctl_nodes := insert node (ctl_nodes c)\<rparr>)
               in do { a \<leftarrow> toggle_nodes self [node] (angstrom c1); Some (c1\<lparr>angstrom := a\<rparr>) } }"

definition remove_node :: "address \<Rightarrow> address \<Rightarrow> address \<Rightarrow> controller_v1 \<Rightarrow> controller_v1 option" where
  "remove_node self caller node c =
     do { check_owner caller c;
          if node \<notin> ctl_nodes c then None
          else let c1 = emit (NodeRemoved node) (c\<lparr>ctl_nodes := ctl_nodes c - {node}\<rparr>)
               in do { a \<leftarrow> toggle_nodes self [node] (angstrom c1); Some (c1\<lparr>angstrom := a\<rparr>) } }"

section \<open>Indices into a list\<close>

text \<open>A function from keys to one plus their position in a list, and zero for the other keys.\<close>

definition indexes :: "('k \<Rightarrow> nat) \<Rightarrow> 'k list \<Rightarrow> bool" where
  "indexes idx ks \<longleftrightarrow> distinct ks \<and> (\<forall>k i. idx k = Suc i \<longleftrightarrow> i < length ks \<and> ks ! i = k)"

lemma indexes_zero: "indexes idx ks \<Longrightarrow> idx k = 0 \<longleftrightarrow> k \<notin> set ks"
proof -
  assume "indexes idx ks"
  then have "k \<in> set ks \<longleftrightarrow> (\<exists>i. idx k = Suc i)" by (auto simp: indexes_def in_set_conv_nth)
  then show ?thesis by (cases "idx k") auto
qed

lemma indexes_snoc:
  assumes "indexes idx ks" "idx k = 0"
  shows "indexes (idx(k := Suc (length ks))) (ks @ [k])"
  using assms indexes_zero [OF assms(1), of k]
  by (auto simp: indexes_def nth_append less_Suc_eq)

text \<open>Removal of a position by moving the last element into it.\<close>

definition swap_remove :: "nat \<Rightarrow> 'a list \<Rightarrow> 'a list" where
  "swap_remove i xs = butlast (if Suc i < length xs then xs[i := last xs] else xs)"

lemma length_swap_remove [simp]: "length (swap_remove i xs) = length xs - 1"
  by (simp add: swap_remove_def)

lemma nth_swap_remove:
  "i < length xs \<Longrightarrow> j < length xs - 1 \<Longrightarrow> swap_remove i xs ! j = (if j = i then xs ! (length xs - 1) else xs ! j)"
  by (cases "xs = []") (auto simp: swap_remove_def nth_butlast nth_list_update last_conv_nth)

lemma map_swap_remove: "xs \<noteq> [] \<Longrightarrow> map f (swap_remove i xs) = swap_remove i (map f xs)"
  by (simp add: swap_remove_def map_butlast map_update last_map)

lemma distinct_swap_remove:
  assumes "distinct xs" "i < length xs"
  shows "distinct (swap_remove i xs)"
  using assms by (auto simp: distinct_conv_nth nth_swap_remove)

lemma mset_butlast: "xs \<noteq> [] \<Longrightarrow> mset (butlast xs) = mset xs - {#last xs#}"
  by (induction xs rule: rev_induct) auto

lemma mset_swap_remove:
  assumes "i < length xs"
  shows "mset (swap_remove i xs) = mset xs - {#xs ! i#}"
proof (cases "Suc i < length xs")
  case True
  then have "xs \<noteq> []" by auto
  then have u: "xs[i := last xs] \<noteq> []" "last (xs[i := last xs]) = last xs"
    using True by (simp_all add: last_conv_nth)
  have "mset (butlast (xs[i := last xs])) = mset xs - {#xs ! i#}"
    unfolding mset_butlast [OF u(1)] u(2) mset_update [OF assms] by simp
  with True show ?thesis by (simp add: swap_remove_def)
next
  case False
  with assms have "i = length xs - 1" "xs \<noteq> []" by auto
  with False show ?thesis by (simp add: swap_remove_def mset_butlast last_conv_nth)
qed

lemma set_swap_remove_subset: "i < length xs \<Longrightarrow> set (swap_remove i xs) \<subseteq> set xs"
  using mset_swap_remove [of i xs] by (metis diff_subset_eq_self set_mset_mono set_mset_mset)

lemma set_swap_remove:
  assumes "distinct xs" "i < length xs"
  shows "set (swap_remove i xs) = set xs - {xs ! i}"
proof (rule set_eqI)
  fix x
  have "x \<in> set (swap_remove i xs) \<longleftrightarrow> x \<in># mset xs - {#xs ! i#}"
    by (metis mset_swap_remove [OF assms(2)] set_mset_mset)
  also have "\<dots> \<longleftrightarrow> x \<in> set xs - {xs ! i}"
    using assms distinct_count_atmost_1 [of xs] by (auto simp: in_diff_count)
  finally show "x \<in> set (swap_remove i xs) \<longleftrightarrow> x \<in> set xs - {xs ! i}" .
qed

lemma indexes_swap_remove:
  assumes "indexes idx ks" "idx k = Suc i"
  shows "indexes ((if Suc i < length ks then idx(last ks := Suc i) else idx)(k := 0)) (swap_remove i ks)"
proof -
  have ki: "i < length ks" "ks ! i = k" and d: "distinct ks" using assms by (auto simp: indexes_def)
  have ne: "ks \<noteq> []" using ki by auto
  let ?idx = "(if Suc i < length ks then idx(last ks := Suc i) else idx)(k := 0)"
  have "?idx x = Suc j \<longleftrightarrow> j < length ks - 1 \<and> swap_remove i ks ! j = x" for x j
  proof (cases "j < length ks - 1")
    case True
    with ki d assms(1) ne show ?thesis
      by (auto simp: nth_swap_remove indexes_def last_conv_nth nth_eq_iff_index_eq)
  next
    case False
    with ki d assms(1) ne show ?thesis
      by (auto simp: indexes_def last_conv_nth nth_eq_iff_index_eq)
  qed
  then show ?thesis
    using distinct_swap_remove [OF d ki(1)] by (simp add: indexes_def)
qed

lemma find_entry_Some: "find_entry k es = Some i \<Longrightarrow> i < length es \<and> ce_key (es ! i) = k"
  by (induction es arbitrary: i) (auto split: if_splits)

lemma find_entry_None: "find_entry k es = None \<longleftrightarrow> k \<notin> ce_key ` set es"
  by (induction es) auto

lemma remove_entry_swap:
  "remove_entry k i es = (if i < length es \<and> ce_key (es ! i) = k then Some (swap_remove i es) else None)"
proof (cases "es = []")
  case False
  have "take (length es - 1) es = butlast es" by (simp add: butlast_conv_take)
  with False show ?thesis
    by (auto simp: remove_entry_def swap_remove_def last_conv_nth butlast_conv_take Let_def)
qed (simp add: remove_entry_def)

section \<open>The controller and the exchange agree\<close>

definition pool_key :: "(u8 list \<Rightarrow> b256) \<Rightarrow> address \<times> address \<Rightarrow> store_key" where
  "pool_key keccak p = key_from_assets keccak (fst p) (snd p)"

text \<open>
  The pools of the controller are those of the store, in the same positions; the indices point at
  them; a pool has an unlocked fee exactly if it is configured; and both know the same nodes.
\<close>

definition in_sync :: "(u8 list \<Rightarrow> b256) \<Rightarrow> controller_v1 \<Rightarrow> bool" where
  "in_sync keccak c \<longleftrightarrow>
     map ce_key (config_store (angstrom c)) = map (pool_key keccak) (ctl_pools c) \<and>
     indexes (pool_indices c) (map (pool_key keccak) (ctl_pools c)) \<and>
     (\<forall>(a, b) \<in> set (ctl_pools c). a < b) \<and>
     (\<forall>k. bit (unlocked_fee_packed_set (angstrom c) k) 0 \<longleftrightarrow> k \<in> pool_key keccak ` set (ctl_pools c)) \<and>
     (\<forall>n. is_node (angstrom c) n \<longleftrightarrow> n \<in> ctl_nodes c)"

lemma in_sync_emit [simp]: "in_sync keccak (emit ev c) = in_sync keccak c"
  by (simp add: in_sync_def emit_def)

lemma only_controller_Some: "only_controller caller a = Some x \<longleftrightarrow> caller = auth_controller a"
  by (simp add: only_controller_def)

lemma packed_bit: "bit (or x 1 :: u256) 0"
  by (simp add: bit_or_iff)

lemma set_unlocked_fee_Some:
  "set_unlocked_fee k f a = Some a' \<Longrightarrow>
   config_store a' = config_store a \<and> is_node a' = is_node a \<and>
   (\<forall>j. bit (unlocked_fee_packed_set a' j) 0 \<longleftrightarrow> j = k \<or> bit (unlocked_fee_packed_set a j) 0)"
  by (auto simp: set_unlocked_fee_def packed_bit split: if_splits)

text \<open>Configuring a pool: it is edited in place, or appended.\<close>

lemma auth_configure_pool_Some:
  assumes "auth_configure_pool keccak lim caller a0 a1 spacing fee ufee a = Some a'"
  shows "a0 < a1"
    "map ce_key (config_store a') =
       map ce_key (config_store a) @
         (if key_from_assets keccak a0 a1 \<in> ce_key ` set (config_store a) then [] else [key_from_assets keccak a0 a1])"
    "is_node a' = is_node a"
    "bit (unlocked_fee_packed_set a' j) 0 \<longleftrightarrow>
       j = key_from_assets keccak a0 a1 \<or> bit (unlocked_fee_packed_set a j) 0"
proof -
  let ?k = "key_from_assets keccak a0 a1" and ?es = "config_store a"
  obtain es' where es': "(case find_entry ?k ?es of
        Some i \<Rightarrow> do { e \<leftarrow> set_tick_spacing lim spacing (?es ! i); e' \<leftarrow> set_bundle_fee fee e; Some (?es[i := e']) }
      | None \<Rightarrow> do { e \<leftarrow> entry_init lim ?k spacing fee; Some (?es @ [e]) }) = Some es'"
    and a': "set_unlocked_fee ?k ufee (store_from_buffer es' a) = Some a'" and "a0 < a1"
    using assms by (auto simp: auth_configure_pool_def bind_eq_Some_conv Let_def split: if_splits)
  then show "a0 < a1" by simp
  have "map ce_key es' = map ce_key ?es @ (if ?k \<in> ce_key ` set ?es then [] else [?k])"
  proof (cases "find_entry ?k ?es")
    case None
    obtain e0 e where "set_tick_spacing lim spacing (push_bit 40 (ucast ?k)) = Some e0" "set_bundle_fee fee e0 = Some e"
        "es' = ?es @ [e]"
      using es' None by (auto simp: entry_init_def bind_eq_Some_conv split: if_splits)
    then have "ce_key e = ?k" "es' = ?es @ [e]"
      using set_tick_spacing_fields(3) set_bundle_fee_fields(3) by (simp_all add: ce_key_shift)
    with None show ?thesis by (simp add: find_entry_None)
  next
    case (Some i)
    obtain e0 e where "set_tick_spacing lim spacing (?es ! i) = Some e0" "set_bundle_fee fee e0 = Some e" "es' = ?es[i := e]"
      using es' Some by (auto simp: bind_eq_Some_conv)
    then have "ce_key e = ?k" "es' = ?es[i := e]"
      using set_tick_spacing_fields(3) set_bundle_fee_fields(3) find_entry_Some [OF Some] by simp_all
    moreover have "?k \<in> ce_key ` set ?es" using Some find_entry_None [of ?k ?es] by auto
    ultimately show ?thesis
      using find_entry_Some [OF Some] by (simp add: map_update list_update_same_conv)
  qed
  with set_unlocked_fee_Some [OF a'] show
    "map ce_key (config_store a') = map ce_key ?es @ (if ?k \<in> ce_key ` set ?es then [] else [?k])"
    "is_node a' = is_node a"
    "bit (unlocked_fee_packed_set a' j) 0 \<longleftrightarrow> j = ?k \<or> bit (unlocked_fee_packed_set a j) 0"
    by (simp_all add: store_from_buffer_def)
qed

lemma configure_pool_in_sync:
  assumes "in_sync keccak c" "configure_pool keccak lim self caller x y spacing fee ufee c = Some c'"
  shows "in_sync keccak c'"
proof -
  obtain a0 a1 where p: "sort_pair x y = (a0, a1)" by fastforce
  let ?k = "key_from_assets keccak a0 a1"
  let ?c1 = "if pool_indices c ?k = 0
    then c\<lparr>ctl_pools := ctl_pools c @ [(a0, a1)], pool_indices := (pool_indices c)(?k := Suc (length (ctl_pools c)))\<rparr> else c"
  obtain a where a: "auth_configure_pool keccak lim self a0 a1 spacing fee ufee (angstrom c) = Some a"
    and c': "c' = (emit (PoolConfigured a0 a1 spacing fee ufee) ?c1)\<lparr>angstrom := a\<rparr>"
    using assms(2) p
    by (auto simp: configure_pool_def bind_eq_Some_conv emit_def Let_def cong: if_cong split: if_splits)
  note f = auth_configure_pool_Some [OF a]
  have ks: "set (map ce_key (config_store (angstrom c))) = pool_key keccak ` set (ctl_pools c)"
    using assms(1) unfolding in_sync_def by (metis set_map)
  have z: "pool_indices c ?k = 0 \<longleftrightarrow> ?k \<notin> pool_key keccak ` set (ctl_pools c)"
    using assms(1) indexes_zero [of "pool_indices c" "map (pool_key keccak) (ctl_pools c)" ?k] by (simp add: in_sync_def)
  show ?thesis
  proof (cases "pool_indices c ?k = 0")
    case True
    then have "indexes ((pool_indices c)(?k := Suc (length (ctl_pools c)))) (map (pool_key keccak) (ctl_pools c) @ [?k])"
      using indexes_snoc [of "pool_indices c" "map (pool_key keccak) (ctl_pools c)" ?k] assms(1)
      by (simp add: in_sync_def)
    with True z ks f assms(1) show ?thesis
      by (auto simp: c' in_sync_def emit_def pool_key_def)
  next
    case False
    with z ks f assms(1) show ?thesis by (auto simp: c' in_sync_def emit_def)
  qed
qed

lemma remove_pool_in_sync:
  assumes "in_sync keccak c" "remove_pool keccak self caller x y c = Some c'"
  shows "in_sync keccak c'"
proof -
  obtain a0 a1 where p: "sort_pair x y = (a0, a1)" by fastforce
  let ?k = "key_from_assets keccak a0 a1" and ?ps = "ctl_pools c" and ?ks = "map (pool_key keccak) (ctl_pools c)"
  obtain i where i: "pool_indices c ?k = Suc i"
    using assms(2) p by (cases "pool_indices c ?k") (auto simp: remove_pool_def bind_eq_Some_conv Let_def)
  have idx: "indexes (pool_indices c) ?ks" and es: "map ce_key (config_store (angstrom c)) = ?ks"
    using assms(1) by (simp_all add: in_sync_def)
  then have il: "i < length ?ps" "?ks ! i = ?k" using i by (auto simp: indexes_def)
  then have ne: "?ps \<noteq> []" "config_store (angstrom c) \<noteq> []" using es by auto
  let ?idx = "(if Suc i < length ?ks then (pool_indices c)(last ?ks := Suc i) else pool_indices c)(?k := 0)"
  have last: "last ?ks = pool_key keccak (?ps ! (length ?ps - 1))" using ne by (simp add: last_map last_conv_nth)
  obtain ts bf a where a: "auth_remove_pool self ?k (store_address (angstrom c)) i (angstrom c) = Some a"
    and c': "c' = (emit (PoolRemoved a0 a1 ts bf) (c\<lparr>pool_indices := ?idx, ctl_pools := swap_remove i ?ps\<rparr>))\<lparr>angstrom := a\<rparr>"
    using assms(2) p i ne
    by (auto simp: remove_pool_def bind_eq_Some_conv emit_def Let_def swap_remove_def last_conv_nth last pool_key_def
        cong: if_cong split: if_splits)
  have a': "config_store a = swap_remove i (config_store (angstrom c))" "is_node a = is_node (angstrom c)"
    "unlocked_fee_packed_set a = (unlocked_fee_packed_set (angstrom c))(?k := 0)"
    using a by (auto simp: auth_remove_pool_def bind_eq_Some_conv remove_entry_swap unset_unlocked_fee_def
        store_from_buffer_def split: if_splits)
  have "set (swap_remove i ?ks) = set ?ks - {?k}"
    using set_swap_remove [of ?ks i] il idx by (simp add: indexes_def)
  then have keys: "pool_key keccak ` set (swap_remove i ?ps) = pool_key keccak ` set ?ps - {?k}"
    using map_swap_remove [OF ne(1), of "pool_key keccak" i] by (metis set_map)
  have sorted: "\<forall>(a, b) \<in> set (swap_remove i ?ps). a < b"
    using set_swap_remove_subset [OF il(1)] assms(1) by (auto simp: in_sync_def)
  have "map ce_key (config_store a) = swap_remove i ?ks" "map (pool_key keccak) (swap_remove i ?ps) = swap_remove i ?ks"
    using ne es by (simp_all add: a' map_swap_remove)
  then show ?thesis
    using assms(1) indexes_swap_remove [OF idx i] keys sorted
    unfolding c' in_sync_def emit_def by (simp add: a'(2,3))
qed

lemma toggle_nodes_Some:
  "toggle_nodes caller [n] a = Some a' \<Longrightarrow> a' = a\<lparr>is_node := (is_node a)(n := \<not> is_node a n)\<rparr>"
  by (auto simp: toggle_nodes_def bind_eq_Some_conv)

lemma add_node_in_sync: "in_sync keccak c \<Longrightarrow> add_node self caller n c = Some c' \<Longrightarrow> in_sync keccak c'"
  by (auto simp: add_node_def bind_eq_Some_conv emit_def in_sync_def dest!: toggle_nodes_Some split: if_splits)

lemma remove_node_in_sync: "in_sync keccak c \<Longrightarrow> remove_node self caller n c = Some c' \<Longrightarrow> in_sync keccak c'"
  by (auto simp: remove_node_def bind_eq_Some_conv emit_def in_sync_def dest!: toggle_nodes_Some split: if_splits)

lemma set_new_controller_in_sync: "in_sync keccak c \<Longrightarrow> set_new_controller caller n c = Some c' \<Longrightarrow> in_sync keccak c'"
  by (auto simp: set_new_controller_def bind_eq_Some_conv in_sync_def emit_def)

lemma accept_new_controller_in_sync:
  "in_sync keccak c \<Longrightarrow> accept_new_controller self caller c = Some c' \<Longrightarrow> in_sync keccak c'"
  by (auto simp: accept_new_controller_def auth_set_controller_def bind_eq_Some_conv in_sync_def emit_def Let_def
      split: if_splits)

lemma apply_updates_keys:
  "apply_updates xs es a = Some (es', a') \<Longrightarrow>
   map ce_key es' = map ce_key es \<and> is_node a' = is_node a \<and>
   (\<forall>j. bit (unlocked_fee_packed_set a' j) 0 \<longleftrightarrow> j \<in> upd_key ` set xs \<or> bit (unlocked_fee_packed_set a j) 0) \<and>
   upd_key ` set xs \<subseteq> ce_key ` set es"
proof (induction xs arbitrary: es a)
  case (Cons x xs)
  obtain e e1 a1 where e: "buffer_get (upd_key x) (upd_index x) es = Some e" "set_bundle_fee (upd_bundle_fee x) e = Some e1"
    "set_unlocked_fee (upd_key x) (upd_unlocked_fee x) a = Some a1"
    and rest: "apply_updates xs (es[upd_index x := e1]) a1 = Some (es', a')"
    using Cons.prems by (auto simp: bind_eq_Some_conv)
  have x: "upd_index x < length es" "ce_key (es ! upd_index x) = upd_key x" "ce_key e1 = upd_key x"
    using e(1) set_bundle_fee_fields(3) [OF e(2)] by (auto simp: buffer_get_def split: if_splits)
  then have keys: "map ce_key (es[upd_index x := e1]) = map ce_key es"
    by (simp add: map_update list_update_same_conv)
  then have "ce_key ` set (es[upd_index x := e1]) = ce_key ` set es" by (metis set_map)
  with Cons.IH [OF rest] keys set_unlocked_fee_Some [OF e(3)] x show ?case
    by (auto simp: image_iff) (metis nth_mem)+
qed simp

lemma batch_update_in_sync:
  assumes "in_sync keccak c" "batch_update_pools keccak self caller us c = Some c'"
  shows "in_sync keccak c'"
proof -
  obtain xs es a where up: "apply_updates xs (config_store (angstrom c)) (angstrom c) = Some (es, a)"
    and c': "c' = (emit OpaqueBatchPoolUpdate c)\<lparr>angstrom := store_from_buffer es a\<rparr>"
    using assms(2)
    by (auto simp: batch_update_pools_def auth_batch_update_pools_def emit_def bind_eq_Some_conv split: if_splits)
  have "ce_key ` set (config_store (angstrom c)) = pool_key keccak ` set (ctl_pools c)"
    using assms(1) unfolding in_sync_def by (metis set_map)
  with apply_updates_keys [OF up] assms(1) show ?thesis
    by (auto simp: c' in_sync_def emit_def store_from_buffer_def)
qed

inductive controller_run :: "(u8 list \<Rightarrow> b256) \<Rightarrow> nat \<times> nat \<Rightarrow> address \<Rightarrow> address \<Rightarrow> controller_v1 \<Rightarrow> bool"
  for keccak lim self own where
  ctl_start: "controller_run keccak lim self own (controller_new self own)"
| ctl_configure: "controller_run keccak lim self own c \<Longrightarrow>
    configure_pool keccak lim self caller x y spacing fee ufee c = Some c' \<Longrightarrow> controller_run keccak lim self own c'"
| ctl_remove: "controller_run keccak lim self own c \<Longrightarrow> remove_pool keccak self caller x y c = Some c' \<Longrightarrow>
    controller_run keccak lim self own c'"
| ctl_batch: "controller_run keccak lim self own c \<Longrightarrow> batch_update_pools keccak self caller us c = Some c' \<Longrightarrow>
    controller_run keccak lim self own c'"
| ctl_add_node: "controller_run keccak lim self own c \<Longrightarrow> add_node self caller n c = Some c' \<Longrightarrow>
    controller_run keccak lim self own c'"
| ctl_remove_node: "controller_run keccak lim self own c \<Longrightarrow> remove_node self caller n c = Some c' \<Longrightarrow>
    controller_run keccak lim self own c'"
| ctl_set_controller: "controller_run keccak lim self own c \<Longrightarrow> set_new_controller caller n c = Some c' \<Longrightarrow>
    controller_run keccak lim self own c'"
| ctl_accept: "controller_run keccak lim self own c \<Longrightarrow> accept_new_controller self caller c = Some c' \<Longrightarrow>
    controller_run keccak lim self own c'"

lemmas in_sync_steps = configure_pool_in_sync remove_pool_in_sync batch_update_in_sync add_node_in_sync
  remove_node_in_sync set_new_controller_in_sync accept_new_controller_in_sync

lemma controller_run_in_sync: "controller_run keccak lim self own c \<Longrightarrow> in_sync keccak c"
proof (induction rule: controller_run.induct)
  case ctl_start
  show ?case by (simp add: in_sync_def controller_new_def auth_new_def indexes_def)
qed (erule (1) in_sync_steps)+

text \<open>
  C8. However a controller is used, its list of pools names the entries of the store in the order
  the store has them, and the index it keeps for a key is the position of that key's entry: the entry
  that a removal addresses is the one with the key. A pool has an unlocked fee exactly while it is
  configured, and the exchange accepts exactly the controller's nodes.
\<close>
theorem controller_in_sync:
  assumes "controller_run keccak lim self own c"
  shows "map ce_key (config_store (angstrom c)) = map (pool_key keccak) (ctl_pools c) \<and>
    distinct (map (pool_key keccak) (ctl_pools c)) \<and>
    (pool_indices c k = Suc i \<longleftrightarrow>
       i < length (config_store (angstrom c)) \<and> ce_key (config_store (angstrom c) ! i) = k) \<and>
    (bit (unlocked_fee_packed_set (angstrom c) k) 0 \<longleftrightarrow> pool_indices c k \<noteq> 0) \<and>
    (is_node (angstrom c) n \<longleftrightarrow> n \<in> ctl_nodes c)"
proof -
  let ?es = "config_store (angstrom c)" and ?ks = "map (pool_key keccak) (ctl_pools c)"
  have s: "in_sync keccak c" by (rule controller_run_in_sync [OF assms])
  then have eq: "map ce_key ?es = ?ks" and idx: "indexes (pool_indices c) ?ks" by (simp_all add: in_sync_def)
  have "length ?ks = length ?es" using eq by (metis length_map)
  moreover have "i < length ?es \<Longrightarrow> ?ks ! i = ce_key (?es ! i)" using eq by (metis nth_map)
  ultimately have "pool_indices c k = Suc i \<longleftrightarrow> i < length ?es \<and> ce_key (?es ! i) = k"
    using idx by (auto simp: indexes_def)
  with s eq idx indexes_zero [OF idx, of k] show ?thesis by (simp add: in_sync_def indexes_def)
qed

text \<open>
  C22. A batch update orders the two assets of each pool the wrong way round, so that it looks up a
  key no pool was configured under: unless that key collides with the key of a pool, every batch with an
  update in it reverts.
\<close>
theorem batch_update_reverts:
  assumes "controller_run keccak lim self own c" "u \<in> set us" "pu_asset_a u \<noteq> pu_asset_b u"
    and "\<forall>p \<in> set (ctl_pools c). pool_key keccak p \<noteq>
      key_from_assets keccak (max (pu_asset_a u) (pu_asset_b u)) (min (pu_asset_a u) (pu_asset_b u))"
  shows "batch_update_pools keccak self caller us c = None"
proof -
  let ?k = "key_from_assets keccak (max (pu_asset_a u) (pu_asset_b u)) (min (pu_asset_a u) (pu_asset_b u))"
  have "in_sync keccak c" by (rule controller_run_in_sync [OF assms(1)])
  then have "pool_indices c ?k = 0"
    using indexes_zero [of "pool_indices c" "map (pool_key keccak) (ctl_pools c)" ?k] assms(4)
    by (auto simp: in_sync_def)
  moreover have "(if pu_asset_b u > pu_asset_a u then (pu_asset_b u, pu_asset_a u) else (pu_asset_a u, pu_asset_b u)) =
      (max (pu_asset_a u) (pu_asset_b u), min (pu_asset_a u) (pu_asset_b u))"
    using assms(3) by (auto simp: max_def min_def)
  ultimately have "update_of keccak c u = None" by (simp add: update_of_def Let_def)
  then have "entry_updates keccak c us = None"
    using assms(2) by (induction us) (auto simp: Option.bind_eq_None_conv)
  then show ?thesis by (cases "check_node_or_owner caller c") (simp_all add: batch_update_pools_def)
qed

text \<open>Witness inputs: a hash that keeps the last byte of each address, and a controller with two pools.\<close>

definition sample_keccak :: "u8 list \<Rightarrow> b256" where
  "sample_keccak bs = 256 * ucast (bs ! 31) + ucast (bs ! 63)"

lemma sample_key: "key_from_assets sample_keccak a b = ucast (256 * ucast (ucast a :: u8) + ucast (ucast b :: u8) :: b256)"
proof -
  have "length (abi_word x) = 32" "abi_word x ! 31 = ucast x" for x
    by (simp_all add: abi_word_def address_bytes_def nth_append)
  then show ?thesis by (simp add: key_from_assets_def sample_keccak_def nth_append)
qed

lemmas controller_run_defs = configure_pool_def remove_pool_def check_owner_def sort_pair_def emit_def
  auth_configure_pool_def auth_remove_pool_def only_controller_def entry_init_def set_tick_spacing_def
  set_bundle_fee_def check_tick_spacing_def check_bundle_fee_def max_fee_def max_fee_bps_def
  max_unlock_fee_bps_def set_unlocked_fee_def unset_unlocked_fee_def store_from_buffer_def remove_entry_def
  store_get_def controller_new_def auth_new_def sample_key ce_key_def ce_tick_spacing_def ce_bundle_fee_def
  pool_key_def Let_def

lemma sample_controller_run:
  "\<exists>c. controller_run sample_keccak (1, 32767) 9 8 c \<and> ctl_pools c = [(2, 3), (2, 4)] \<and>
     pool_indices c (key_from_assets sample_keccak 2 4) = Suc 1"
proof -
  obtain c1 where c1: "configure_pool sample_keccak (1, 32767) 9 8 3 2 60 3000 0 (controller_new 9 8) = Some c1"
      "ctl_pools c1 = [(2, 3)]" "ctl_owner c1 = 8" "auth_controller (angstrom c1) = 9"
      "pool_indices c1 = (\<lambda>_. 0)(515 := 1)" "map ce_key (config_store (angstrom c1)) = [515]"
    by (simp add: controller_run_defs)
  have e: "ce_key (hd (config_store (angstrom c1))) = 515" "length (config_store (angstrom c1)) = 1"
    using c1(6) by (auto simp: map_eq_Cons_conv)
  have "find_entry 516 (config_store (angstrom c1)) = None"
    using c1(6) by (auto simp: find_entry_None map_eq_Cons_conv)
  then obtain c2 where c2: "configure_pool sample_keccak (1, 32767) 9 8 2 4 10 500 0 c1 = Some c2"
      "ctl_pools c2 = [(2, 3), (2, 4)]" "pool_indices c2 516 = Suc 1"
    using c1(2-5) by (simp add: controller_run_defs)
  have "controller_run sample_keccak (1, 32767) 9 8 c2"
    by (rule ctl_configure [OF ctl_configure [OF ctl_start c1(1)] c2(1)])
  with c2 show ?thesis by (auto simp: sample_key)
qed

theorem controller_in_sync_witness:
  "\<exists>c. controller_run sample_keccak (1, 32767) 9 8 c \<and>
     pool_indices c (key_from_assets sample_keccak 2 4) = Suc 1 \<and>
     ce_key (config_store (angstrom c) ! 1) = key_from_assets sample_keccak 2 4"
proof -
  obtain c where c: "controller_run sample_keccak (1, 32767) 9 8 c"
      "pool_indices c (key_from_assets sample_keccak 2 4) = Suc 1"
    using sample_controller_run by blast
  with controller_in_sync [OF c(1), of "key_from_assets sample_keccak 2 4" 1] show ?thesis by auto
qed

theorem batch_update_reverts_witness:
  "\<exists>c. controller_run sample_keccak (1, 32767) 9 8 c \<and> ctl_pools c = [(2, 3), (2, 4)] \<and>
     batch_update_pools sample_keccak 9 8
       [\<lparr>pu_asset_a = 2, pu_asset_b = 3, pu_bundle_fee = 10, pu_unlocked_fee = 10\<rparr>] c = None"
proof -
  obtain c where c: "controller_run sample_keccak (1, 32767) 9 8 c" "ctl_pools c = [(2, 3), (2, 4)]"
    using sample_controller_run by blast
  let ?u = "\<lparr>pu_asset_a = 2, pu_asset_b = 3, pu_bundle_fee = 10, pu_unlocked_fee = 10\<rparr>"
  have "batch_update_pools sample_keccak 9 8 [?u] c = None"
    by (rule batch_update_reverts [OF c(1), of ?u]) (simp_all add: c(2) pool_key_def sample_key)
  with c show ?thesis by blast
qed

end
