(* ===== verification/Pool_Config.thy ===== *)
theory Pool_Config
  imports Pool_Controller
begin

text \<open>
  The node's copy of the pools that are configured on chain
  (\<^verbatim>\<open>AngstromPoolConfigStore\<close> in \<^verbatim>\<open>types/src/contract_payloads/angstrom/mod.rs\<close>) and the pool of
  an order (\<^verbatim>\<open>validation/src/order/state/pools/mod.rs\<close>). A key of 27 bytes is one word of 216
  bits. The hash and the identifier of a Uniswap pool are parameters.

  Shown here: loading the code of the contract's store gives a copy that mirrors it, position for
  position; the two directions of a pair have one pool.
\<close>

section \<open>Bytes\<close>

type_synonym u32 = "32 word"

definition be_word :: "u8 list \<Rightarrow> 'a::len word" where
  "be_word bs = foldl (\<lambda>w b. or (push_bit 8 w) (ucast b)) 0 bs"

definition word_bytes :: "u256 \<Rightarrow> u8 list" where
  "word_bytes w = map (\<lambda>i. ucast (drop_bit (8 * (31 - i)) w)) [0..<32]"

lemma be_word_snoc: "be_word (bs @ [b]) = or (push_bit 8 (be_word bs)) (ucast b)"
  by (simp add: be_word_def)

lemma bit_be_word:
  "bit (be_word bs :: 'a::len word) n \<longleftrightarrow> n < LENGTH('a) \<and> n div 8 < length bs \<and> bit (rev bs ! (n div 8)) (n mod 8)"
proof (induction bs arbitrary: n rule: rev_induct)
  case Nil
  then show ?case by (simp add: be_word_def)
next
  case (snoc b bs)
  show ?case
  proof (cases "n < 8")
    case True
    then show ?thesis by (auto simp: be_word_snoc bit_or_iff bit_push_bit_iff bit_ucast_iff dest: bit_imp_le_length)
  next
    case False
    then have "n div 8 = Suc ((n - 8) div 8)" "n mod 8 = (n - 8) mod 8"
      by (simp_all add: le_div_geq le_mod_geq)
    with False snoc.IH [of "n - 8"] show ?thesis
      by (auto simp: be_word_snoc bit_or_iff bit_push_bit_iff bit_ucast_iff bit_beyond dest: bit_imp_le_length)
  qed
qed

text \<open>A part of the bytes of a word is a part of the word.\<close>

lemma bit_word_bytes: "i < 32 \<Longrightarrow> bit (word_bytes w ! i) n \<longleftrightarrow> n < 8 \<and> bit w (8 * (31 - i) + n)"
  by (simp add: word_bytes_def byte_bit)

lemma length_word_bytes [simp]: "length (word_bytes w) = 32"
  by (simp add: word_bytes_def)

section \<open>The store\<close>

record ang_pool_config_entry =
  pool_partial_key :: store_key
  tick_spacing :: u16
  fee_in_e6 :: u32
  store_index :: usize

type_synonym pool_config_store = "(store_key \<times> ang_pool_config_entry) list"

definition store_length :: "pool_config_store \<Rightarrow> usize" where
  "store_length es = of_nat (length es)"

definition derive_store_key :: "(u8 list \<Rightarrow> b256) \<Rightarrow> address \<Rightarrow> address \<Rightarrow> store_key" where
  "derive_store_key keccak a b = ucast (keccak (abi_word a @ abi_word b))"

definition shift_down :: "usize \<Rightarrow> ang_pool_config_entry \<Rightarrow> ang_pool_config_entry" where
  "shift_down i v = (if store_index v > i then v\<lparr>store_index := store_index v - 1\<rparr> else v)"

definition remove_pair :: "(u8 list \<Rightarrow> b256) \<Rightarrow> address \<Rightarrow> address \<Rightarrow> pool_config_store \<Rightarrow> pool_config_store" where
  "remove_pair keccak a b es =
     (let key = derive_store_key keccak a b
      in case map_of es key of
           None \<Rightarrow> es
         | Some e \<Rightarrow> map (\<lambda>(k, v). (k, shift_down (store_index e) v)) (AList.delete key es))"

definition store_new_pool :: "(u8 list \<Rightarrow> b256) \<Rightarrow> address \<Rightarrow> address \<Rightarrow> ang_pool_config_entry \<Rightarrow> pool_config_store \<Rightarrow> pool_config_store" where
  "store_new_pool keccak a b e es = AList.update (derive_store_key keccak a b) e es"

definition get_entry :: "(u8 list \<Rightarrow> b256) \<Rightarrow> pool_config_store \<Rightarrow> address \<Rightarrow> address \<Rightarrow> ang_pool_config_entry option" where
  "get_entry keccak es a b = map_of es (derive_store_key keccak a b)"

definition pool_config_store_entry_size :: nat where
  "pool_config_store_entry_size = 32"

function chunks :: "nat \<Rightarrow> 'a list \<Rightarrow> 'a list list" where
  "chunks n xs = (if n = 0 \<or> xs = [] then [] else take n xs # chunks n (drop n xs))"
  by auto
termination
  by (relation "measure (\<lambda>(n, xs). length xs)") auto

declare chunks.simps [simp del]

definition entry_of_chunk :: "nat \<times> u8 list \<Rightarrow> store_key \<times> ang_pool_config_entry" where
  "entry_of_chunk ic =
     (let (i, chunk) = ic; k = be_word (take 27 chunk)
      in (k, \<lparr>pool_partial_key = k, tick_spacing = be_word [chunk ! 27, chunk ! 28],
              fee_in_e6 = be_word [0, chunk ! 29, chunk ! 30, chunk ! 31], store_index = of_nat i\<rparr>))"

definition store_try_from :: "u8 list \<Rightarrow> string + pool_config_store" where
  "store_try_from value =
     (case value of
        [] \<Rightarrow> Inr []
      | b # adjusted \<Rightarrow>
          if b \<noteq> 0 then Inl ''Invalid encoded entries: must start with a safety byte of 0''
          else if length adjusted mod pool_config_store_entry_size \<noteq> 0
          then Inl ''Invalid encoded entries: incorrect length after removing safety byte''
          else Inr (fold (\<lambda>(k, e). AList.update k e)
                      (map entry_of_chunk (List.enumerate 0 (chunks pool_config_store_entry_size adjusted))) []))"

section \<open>The pool of an order\<close>

record pool_key_data =
  currency0 :: address
  currency1 :: address
  pk_fee :: u24
  pk_tick_spacing :: u24
  hooks :: address

record pools_tracker =
  angstrom_address :: address
  pool_store :: pool_config_store

text \<open>The outer option is the panic on a fee that does not fit 24 bits.\<close>

definition get_poolid :: "(u8 list \<Rightarrow> b256) \<Rightarrow> (pool_key_data \<Rightarrow> b256) \<Rightarrow> pools_tracker \<Rightarrow> address \<Rightarrow> address \<Rightarrow> b256 option option" where
  "get_poolid keccak id_of_key t a1 a2 =
     (case get_entry keccak (pool_store t) a1 a2 of
        None \<Rightarrow> Some None
      | Some st \<Rightarrow>
          let (b1, b2) = (if a2 < a1 then (a2, a1) else (a1, a2))
          in do { fee \<leftarrow> from_limbs_slice (unat (fee_in_e6 st));
                  Some (Some (id_of_key \<lparr>currency0 = b1, currency1 = b2, pk_fee = fee,
                     pk_tick_spacing = ucast (tick_spacing st), hooks = angstrom_address t\<rparr>)) })"

definition order_info :: "(u8 list \<Rightarrow> b256) \<Rightarrow> (pool_key_data \<Rightarrow> b256) \<Rightarrow> pools_tracker \<Rightarrow> address \<Rightarrow> address \<Rightarrow> (bool \<times> b256) option option" where
  "order_info keccak id_of_key t cin cout =
     (let bid = cin > cout; (c1, c2) = (if cin > cout then (cout, cin) else (cin, cout))
      in do { r \<leftarrow> get_poolid keccak id_of_key t c1 c2; Some (map_option (Pair bid) r) })"

definition fetch_pool_info_for_order :: "(u8 list \<Rightarrow> b256) \<Rightarrow> (pool_key_data \<Rightarrow> b256) \<Rightarrow> pools_tracker \<Rightarrow> pool_order \<Rightarrow> user_order_pool_info option option" where
  "fetch_pool_info_for_order keccak id_of_key t v =
     do { r \<leftarrow> order_info keccak id_of_key t (token_in v) (token_out v);
          Some (map_option (\<lambda>(bid, p). \<lparr>info_token = token_in v, info_is_bid = bid, info_pool_id = p\<rparr>) r) }"

text \<open>
  The two directions of a pair are in one pool: one of them is a bid, and both have the
  identifier of the sorted pair.
\<close>

lemma order_info_flip:
  assumes "a \<noteq> b"
  shows "order_info keccak id_of_key t a b = map_option (map_option (\<lambda>(bid, p). (\<not> bid, p))) (order_info keccak id_of_key t b a)"
proof (cases "a < b")
  case True
  then have "\<not> b < a" by simp
  with True show ?thesis
    by (cases "get_poolid keccak id_of_key t a b") (simp_all add: order_info_def option.map_comp comp_def)
next
  case False
  with assms show ?thesis
    by (cases "get_poolid keccak id_of_key t b a") (simp_all add: order_info_def option.map_comp comp_def)
qed

section \<open>Loading the store\<close>

text \<open>The code of the store that the contract deploys: a byte that stops execution, and the entries.\<close>

definition store_code :: "u256 list \<Rightarrow> u8 list" where
  "store_code cs = 0 # concat (map word_bytes cs)"

text \<open>An entry of the copy and the packed entry at its index agree.\<close>

definition entry_at :: "u256 list \<Rightarrow> store_key \<Rightarrow> ang_pool_config_entry \<Rightarrow> bool" where
  "entry_at cs k e \<longleftrightarrow>
     (let i = unat (store_index e)
      in i < length cs \<and> ce_key (cs ! i) = k \<and> pool_partial_key e = k \<and>
         tick_spacing e = ce_tick_spacing (cs ! i) \<and> fee_in_e6 e = ucast (ce_bundle_fee (cs ! i)))"

definition mirrors :: "pool_config_store \<Rightarrow> u256 list \<Rightarrow> bool" where
  "mirrors es cs \<longleftrightarrow> distinct (map fst es) \<and> distinct (map ce_key cs) \<and> fst ` set es = ce_key ` set cs \<and>
     (\<forall>(k, e) \<in> set es. entry_at cs k e)"

lemma chunks_concat:
  "0 < n \<Longrightarrow> \<forall>x \<in> set xs. length x = n \<Longrightarrow> chunks n (concat xs) = xs"
proof (induction xs)
  case Nil
  then show ?case by (simp add: chunks.simps)
next
  case (Cons x xs)
  then have "x \<noteq> []" "chunks n (concat xs) = xs" by auto
  with Cons.prems show ?case by (simp add: chunks.simps [of n "x @ concat xs"])
qed

lemma byte_position:
  "n div 8 = Suc 0 \<Longrightarrow> 8 + n mod 8 = n" "n div 8 = Suc 0 \<Longrightarrow> 32 + n mod 8 = n + 24" "n div 8 = 2 \<Longrightarrow> 16 + n mod 8 = n"
  for n :: nat using div_mult_mod_eq [of n 8] by simp_all

lemma be_word_key: "be_word (take 27 (word_bytes w)) = ce_key w"
proof (rule bit_word_eqI)
  fix n assume n: "n < LENGTH(216)"
  then have d: "n div 8 < 27" by simp
  then have "rev (take 27 (word_bytes w)) ! (n div 8) = word_bytes w ! (26 - n div 8)"
    by (simp add: rev_nth)
  moreover have "8 * (31 - (26 - n div 8)) + n mod 8 = n + 40" using d by simp
  ultimately show "bit (be_word (take 27 (word_bytes w)) :: store_key) n = bit (ce_key w) n"
    using n d by (simp add: bit_be_word bit_ce_key bit_word_bytes)
qed

lemma be_word_tick_spacing: "be_word [word_bytes w ! 27, word_bytes w ! 28] = ce_tick_spacing w"
proof (rule bit_word_eqI)
  fix n assume n: "n < LENGTH(16)"
  have b: "bit (be_word [word_bytes w ! 27, word_bytes w ! 28] :: u16) n =
      (n div 8 < Suc (Suc 0) \<and> bit ([word_bytes w ! 28, word_bytes w ! 27] ! (n div 8)) (n mod 8))"
    using n by (simp add: bit_be_word)
  consider "n div 8 = 0" "n < 8" | "n div 8 = Suc 0" using n by fastforce
  then show "bit (be_word [word_bytes w ! 27, word_bytes w ! 28] :: u16) n = bit (ce_tick_spacing w) n"
  proof cases
    case 1
    then show ?thesis using n by (simp add: b bit_word_bytes bit_ce_tick_spacing ac_simps)
  next
    case 2
    then show ?thesis using n by (simp add: b bit_word_bytes bit_ce_tick_spacing byte_position)
  qed
qed

lemma be_word_fee:
  "be_word [0, word_bytes w ! 29, word_bytes w ! 30, word_bytes w ! 31] = (ucast (ce_bundle_fee w) :: u32)"
proof (rule bit_word_eqI)
  let ?l = "be_word [0, word_bytes w ! 29, word_bytes w ! 30, word_bytes w ! 31] :: u32"
  fix n assume n: "n < LENGTH(32)"
  have b: "bit ?l n =
      (n div 8 < Suc (Suc (Suc (Suc 0))) \<and> bit ([word_bytes w ! 31, word_bytes w ! 30, word_bytes w ! 29, 0] ! (n div 8)) (n mod 8))"
    using n by (simp add: bit_be_word)
  consider "n div 8 = 0" "n < 8" | "n div 8 = Suc 0" "n < 24" | "n div 8 = 2" "n < 24" | "n div 8 = 3" "24 \<le> n"
    using n by fastforce
  then show "bit ?l n = bit (ucast (ce_bundle_fee w) :: u32) n"
  proof cases
    case 1
    then show ?thesis using n by (simp add: b bit_word_bytes bit_ucast_iff bit_ce_bundle_fee)
  next
    case 2
    then show ?thesis using n by (simp add: b bit_word_bytes bit_ucast_iff bit_ce_bundle_fee byte_position)
  next
    case 3
    then show ?thesis using n by (simp add: b bit_word_bytes bit_ucast_iff bit_ce_bundle_fee byte_position)
  next
    case 4
    then show ?thesis by (simp add: b bit_ucast_iff bit_ce_bundle_fee)
  qed
qed

lemma entry_of_chunk_word_bytes:
  "entry_of_chunk (i, word_bytes w) =
     (ce_key w, \<lparr>pool_partial_key = ce_key w, tick_spacing = ce_tick_spacing w,
        fee_in_e6 = ucast (ce_bundle_fee w), store_index = of_nat i\<rparr>)"
  by (simp only: entry_of_chunk_def Let_def prod.case be_word_key be_word_tick_spacing be_word_fee)

lemma update_fresh: "k \<notin> fst ` set al \<Longrightarrow> AList.update k v al = al @ [(k, v)]"
  by (induction al) auto

lemma fold_update_fresh:
  "distinct (map fst (al @ xs)) \<Longrightarrow> fold (\<lambda>p. AList.update (fst p) (snd p)) xs al = al @ xs"
proof (induction xs arbitrary: al)
  case (Cons x xs)
  have "fst x \<notin> fst ` set al" using Cons.prems by simp
  then have "AList.update (fst x) (snd x) al = al @ [x]" by (simp add: update_fresh)
  moreover have "fold (\<lambda>p. AList.update (fst p) (snd p)) xs (al @ [x]) = (al @ [x]) @ xs"
    by (rule Cons.IH) (use Cons.prems in simp)
  ultimately show ?case by simp
qed simp

definition loaded :: "u256 list \<Rightarrow> pool_config_store" where
  "loaded cs = map (\<lambda>p. entry_of_chunk (fst p, word_bytes (snd p))) (List.enumerate 0 cs)"

lemma length_entries: "length (concat (map word_bytes cs)) mod 32 = 0"
  by (induction cs) simp_all

lemma loaded_nth:
  "i < length cs \<Longrightarrow> loaded cs ! i = (ce_key (cs ! i), \<lparr>pool_partial_key = ce_key (cs ! i),
     tick_spacing = ce_tick_spacing (cs ! i), fee_in_e6 = ucast (ce_bundle_fee (cs ! i)), store_index = of_nat i\<rparr>)"
  by (simp add: loaded_def nth_enumerate_eq entry_of_chunk_word_bytes)

lemma loaded_length: "length (loaded cs) = length cs"
  by (simp add: loaded_def)

lemma loaded_keys: "map fst (loaded cs) = map ce_key cs"
  by (rule nth_equalityI) (simp_all add: loaded_length loaded_nth)

lemma loaded_chunks: "map entry_of_chunk (List.enumerate 0 (chunks 32 (concat (map word_bytes cs)))) = loaded cs"
proof -
  have "chunks 32 (concat (map word_bytes cs)) = map word_bytes cs" by (rule chunks_concat) auto
  then show ?thesis
    by (auto intro!: nth_equalityI simp: loaded_def nth_enumerate_eq)
qed

lemma store_try_from_code:
  assumes "distinct (map ce_key cs)"
  shows "store_try_from (store_code cs) = Inr (loaded cs)"
proof -
  have "fold (\<lambda>(k, e). AList.update k e) (loaded cs) [] = loaded cs"
    unfolding split_def using fold_update_fresh [of "[]" "loaded cs"] assms loaded_keys [of cs] by simp
  then show ?thesis
    by (simp only: store_try_from_def store_code_def pool_config_store_entry_size_def list.case not_True_eq_False
        if_False length_entries loaded_chunks refl)
qed

lemma loaded_mirrors:
  assumes "distinct (map ce_key cs)" "length cs < 2 ^ 64"
  shows "mirrors (loaded cs) cs"
proof -
  have at: "entry_at cs (fst p) (snd p)" if p: "p \<in> set (loaded cs)" for p
  proof -
    obtain i where "i < length (loaded cs)" "loaded cs ! i = p"
      using p in_set_conv_nth [of p "loaded cs"] by blast
    then have i: "i < length cs" "p = loaded cs ! i" by (simp_all add: loaded_length)
    then have "unat (store_index (snd p)) = i" using assms(2) by (simp add: loaded_nth unat_of_nat_fits)
    with i show ?thesis by (simp add: loaded_nth entry_at_def)
  qed
  have "fst ` set (loaded cs) = ce_key ` set cs" using loaded_keys [of cs] by (metis set_map)
  moreover have "distinct (map fst (loaded cs))" using assms(1) by (simp add: loaded_keys)
  ultimately show ?thesis unfolding mirrors_def split_def using assms(1) at by simp
qed

text \<open>
  C9. Reading the code of the contract's store, which is the list of its packed entries, gives a copy
  that mirrors it: the copy has the keys of the entries, and each has the position, the tick spacing and the fee of
  its entry.
\<close>
theorem load_mirrors:
  assumes "distinct (map ce_key cs)" "length cs < 2 ^ 64"
  shows "\<exists>es. store_try_from (store_code cs) = Inr es \<and> mirrors es cs"
  using store_try_from_code [OF assms(1)] loaded_mirrors [OF assms] by blast

theorem load_mirrors_witness:
  "\<exists>e es. entry_init (1, 32767) 77 60 3000 = Some e \<and> store_try_from (store_code [e]) = Inr es \<and> mirrors es [e]"
proof -
  obtain e where "entry_init (1, 32767) 77 60 3000 = Some e"
    by (simp add: entry_init_def set_tick_spacing_def set_bundle_fee_def check_tick_spacing_def check_bundle_fee_def
        max_fee_def)
  with load_mirrors [of "[e]"] show ?thesis by auto
qed

end
