(* ===== verification/Eth_Manager.thy ===== *)
theory Eth_Manager
  imports Pool_Config Block_Sync
begin

text \<open>
  The component that follows the chain, \<^verbatim>\<open>eth/src/manager.rs\<close>, with the range of a reorg,
  \<^verbatim>\<open>types/src/primitive/chain_ext.rs\<close>. It feeds the global block synchronisation of theory
  Block\_Sync and the copy of the configured pools of theory Pool\_Config, and sends the events the
  other components react to.

  A log is given with the event that the library decodes it to. What the bundle in the input of a
  transaction contains is a parameter, which fails if it does not decode. A listener is a number, and which of
  them still listen is a parameter. Hash sets are lists.

  Shown here: the nodes and the newly configured pools of the controller are followed; which
  removals leave the copy of the pools in step with the contract; that a reconfigured pool and a
  reorg do not.
\<close>

section \<open>The chain\<close>

datatype log_event =
    ControllerLog controller_event
  | TransferLog address address
  | ApprovalLog address address
  | OtherLog

record chain_log =
  log_address :: address
  log_event :: log_event

record chain_tx =
  tx_to :: "address option"
  tx_input :: "u8 list"

record chain =
  tip_number :: u64
  tip_logs :: "chain_log list option"
  tip_transactions :: "chain_tx list"
  chain_blocks :: "(u64 \<times> b256) list"

definition max_reorg_depth :: u64 where "max_reorg_depth = 150"

text \<open>The start of the search wraps around on a chain shorter than its depth.\<close>

definition reorged_range :: "chain \<Rightarrow> chain \<Rightarrow> (u64 \<times> u64) option" where
  "reorged_range old new =
     (let start = tip_number new - max_reorg_depth;
          range = map (\<lambda>(o', n). fst n)
            (filter (\<lambda>(o', n). snd o' \<noteq> snd n)
              (zip (filter (\<lambda>b. fst b \<ge> start) (chain_blocks old)) (filter (\<lambda>b. fst b \<ge> start) (chain_blocks new))))
      in case range of [] \<Rightarrow> None | r # _ \<Rightarrow> Some (r, last range))"

datatype canon_state_notification = Reorg chain chain | Commit chain

datatype eth_event =
    NewBlock u64
  | NewBlockTransitions u64 "b256 list" "address list"
  | ReorgedOrders "b256 list" "u64 \<times> u64"
  | FinalizedBlock u64
  | NewPool pool_key_data
  | RemovedPool pool_key_data
  | AddedNode address
  | RemovedNode address

section \<open>The manager\<close>

record eth_data_cleanser =
  eth_angstrom_address :: address
  periphery_address :: address
  event_listeners :: "nat list"
  angstrom_tokens :: "(address \<times> usize) list"
  eth_block_sync :: block_sync
  eth_pool_store :: pool_config_store
  node_set :: "address list"
  sent_events :: "eth_event list"
  rebroadcast :: "canon_state_notification list"

record eth_env =
  eth_keccak :: "u8 list \<Rightarrow> b256"
  bundle_hashes :: "u8 list \<Rightarrow> u64 \<Rightarrow> b256 list option"
  bundle_accounts :: "u8 list \<Rightarrow> u64 \<Rightarrow> address list option"
  listening :: "nat \<Rightarrow> bool"

definition send_events :: "eth_env \<Rightarrow> eth_event \<Rightarrow> eth_data_cleanser \<Rightarrow> eth_data_cleanser" where
  "send_events env ev m =
     m\<lparr>event_listeners := filter (listening env) (event_listeners m), sent_events := sent_events m @ [ev]\<rparr>"

text \<open>The lookup of a counter leaves a zero behind where there was none.\<close>

definition token_entry :: "address \<Rightarrow> (address \<times> usize) list \<Rightarrow> usize \<times> (address \<times> usize) list" where
  "token_entry t ts = (case map_of ts t of Some n \<Rightarrow> (n, ts) | None \<Rightarrow> (0, AList.update t 0 ts))"

definition count_token :: "address \<Rightarrow> (address \<times> usize) list \<Rightarrow> (address \<times> usize) list" where
  "count_token t ts = AList.update t (fst (token_entry t ts) + 1) ts"

definition forget_tokens :: "address \<Rightarrow> address \<Rightarrow> (address \<times> usize) list \<Rightarrow> (address \<times> usize) list" where
  "forget_tokens a b ts =
     (let (t0, ts1) = token_entry a ts; (t1, ts2) = token_entry b ts1;
          ts3 = (if t0 = 1 then AList.delete a ts2 else ts2)
      in if t1 = 1 then AList.delete b ts3 else ts3)"

fun apply_event :: "eth_env \<Rightarrow> controller_event \<Rightarrow> eth_data_cleanser \<Rightarrow> eth_data_cleanser" where
  "apply_event env (NodeRemoved n) m = send_events env (RemovedNode n) (m\<lparr>node_set := removeAll n (node_set m)\<rparr>)"
| "apply_event env (NodeAdded n) m = send_events env (AddedNode n) (m\<lparr>node_set := List.insert n (node_set m)\<rparr>)"
| "apply_event env (PoolRemoved a0 a1 spacing fee) m =
     send_events env
       (RemovedPool \<lparr>currency0 = a0, currency1 = a1, pk_fee = fee, pk_tick_spacing = ucast spacing,
          hooks = eth_angstrom_address m\<rparr>)
       (m\<lparr>eth_pool_store := remove_pair (eth_keccak env) a0 a1 (eth_pool_store m),
          angstrom_tokens := forget_tokens a0 a1 (angstrom_tokens m)\<rparr>)"
| "apply_event env (PoolConfigured a0 a1 spacing fee ufee) m =
     (let e = \<lparr>pool_partial_key = derive_store_key (eth_keccak env) a0 a1, tick_spacing = spacing,
               fee_in_e6 = ucast fee, store_index = store_length (eth_pool_store m)\<rparr>
      in send_events env
           (NewPool \<lparr>currency0 = a0, currency1 = a1, pk_fee = fee, pk_tick_spacing = ucast spacing,
              hooks = eth_angstrom_address m\<rparr>)
           (m\<lparr>eth_pool_store := store_new_pool (eth_keccak env) a0 a1 e (eth_pool_store m),
              angstrom_tokens := count_token a1 (count_token a0 (angstrom_tokens m))\<rparr>))"
| "apply_event env ev m = m"

definition apply_log :: "eth_env \<Rightarrow> chain_log \<Rightarrow> eth_data_cleanser \<Rightarrow> eth_data_cleanser" where
  "apply_log env l m = (case log_event l of ControllerLog ev \<Rightarrow> apply_event env ev m | _ \<Rightarrow> m)"

definition logs_or_default :: "chain \<Rightarrow> chain_log list" where
  "logs_or_default c = (case tip_logs c of None \<Rightarrow> [] | Some ls \<Rightarrow> ls)"

definition apply_periphery_logs :: "eth_env \<Rightarrow> chain \<Rightarrow> eth_data_cleanser \<Rightarrow> eth_data_cleanser" where
  "apply_periphery_logs env c m =
     fold (apply_log env) (filter (\<lambda>l. log_address l = periphery_address m) (logs_or_default c)) m"

text \<open>What the bundles sent to the exchange contain; one that does not decode is skipped.\<close>

definition from_bundles :: "(u8 list \<Rightarrow> u64 \<Rightarrow> 'a list option) \<Rightarrow> address \<Rightarrow> chain \<Rightarrow> 'a list" where
  "from_bundles f a c =
     concat (List.map_filter (\<lambda>tx. f (tx_input tx) (tip_number c))
       (filter (\<lambda>tx. tx_to tx = Some a) (tip_transactions c)))"

definition fetch_filled_order :: "eth_env \<Rightarrow> eth_data_cleanser \<Rightarrow> chain \<Rightarrow> b256 list" where
  "fetch_filled_order env m c = from_bundles (bundle_hashes env) (eth_angstrom_address m) c"

definition log_accounts :: "chain_log \<Rightarrow> address list" where
  "log_accounts l = (case log_event l of TransferLog a b \<Rightarrow> [a, b] | ApprovalLog a b \<Rightarrow> [a, b] | _ \<Rightarrow> [])"

definition get_eoa :: "eth_env \<Rightarrow> eth_data_cleanser \<Rightarrow> chain \<Rightarrow> address list" where
  "get_eoa env m c =
     rev (remdups (rev
       (concat (map log_accounts (filter (\<lambda>l. map_of (angstrom_tokens m) (log_address l) \<noteq> None) (logs_or_default c))) @
        from_bundles (bundle_accounts env) (eth_angstrom_address m) c)))"

definition handle_commit :: "eth_env \<Rightarrow> chain \<Rightarrow> eth_data_cleanser \<Rightarrow> eth_data_cleanser" where
  "handle_commit env new m =
     (let m1 = apply_periphery_logs env new m;
          m2 = m1\<lparr>eth_block_sync := new_block (tip_number new) (eth_block_sync m1)\<rparr>
      in send_events env (NewBlockTransitions (tip_number new) (fetch_filled_order env m2 new) (get_eoa env m2 new)) m2)"

text \<open>The accounts that the reorg touched are collected and not used.\<close>

definition handle_reorg :: "eth_env \<Rightarrow> chain \<Rightarrow> chain \<Rightarrow> eth_data_cleanser \<Rightarrow> eth_data_cleanser" where
  "handle_reorg env old new m =
     (let m1 = apply_periphery_logs env new m;
          tip = tip_number new;
          rng = (case reorged_range old new of None \<Rightarrow> (tip, tip) | Some r \<Rightarrow> r);
          m2 = m1\<lparr>eth_block_sync := reorg rng (eth_block_sync m1)\<rparr>;
          old_filled = remdups (fetch_filled_order env m2 old);
          new_filled = remdups (fetch_filled_order env m2 new);
          difference = filter (\<lambda>h. h \<notin> set new_filled) old_filled
      in send_events env (ReorgedOrders difference rng) m2)"

definition on_canon_update :: "eth_env \<Rightarrow> canon_state_notification \<Rightarrow> eth_data_cleanser \<Rightarrow> eth_data_cleanser" where
  "on_canon_update env u m =
     (let m' = (case u of Reorg old new \<Rightarrow> handle_reorg env old new m | Commit new \<Rightarrow> handle_commit env new m)
      in m'\<lparr>rebroadcast := rebroadcast m' @ [u]\<rparr>)"

datatype eth_command = SubscribeEthNetworkEvents nat | SubscribeCannon

fun on_command :: "eth_command \<Rightarrow> eth_data_cleanser \<Rightarrow> eth_data_cleanser" where
  "on_command (SubscribeEthNetworkEvents l) m = m\<lparr>event_listeners := event_listeners m @ [l]\<rparr>"
| "on_command SubscribeCannon m = m"

text \<open>
  A poll: the updates that are ready, None for one that ends the stream or that was missed, and the
  commands that are ready. The result says whether the task has ended.
\<close>

fun poll_updates :: "eth_env \<Rightarrow> canon_state_notification option list \<Rightarrow> eth_data_cleanser \<Rightarrow> bool \<times> eth_data_cleanser" where
  "poll_updates env [] m = (False, m)"
| "poll_updates env (None # us) m = (True, m)"
| "poll_updates env (Some u # us) m = poll_updates env us (on_canon_update env u m)"

definition eth_poll :: "eth_env \<Rightarrow> canon_state_notification option list \<Rightarrow> eth_command list \<Rightarrow> eth_data_cleanser \<Rightarrow>
    bool \<times> eth_data_cleanser" where
  "eth_poll env us cs m =
     (let (ended, m1) = poll_updates env us m
      in if ended then (True, m1) else (False, fold on_command cs m1))"

section \<open>The pools of the contract\<close>

lemma mirrors_length:
  assumes "mirrors es cs"
  shows "length es = length cs"
proof -
  have "length es = card (set (map fst es))"
    using assms distinct_card [of "map fst es"] by (simp add: mirrors_def)
  also have "\<dots> = card (set (map ce_key cs))" using assms by (simp add: mirrors_def)
  also have "\<dots> = length cs"
    using assms distinct_card [of "map ce_key cs"] by (simp add: mirrors_def)
  finally show ?thesis .
qed

lemma mirrors_lookup:
  assumes "mirrors es cs" "map_of es k = Some e"
  shows "unat (store_index e) < length cs" "ce_key (cs ! unat (store_index e)) = k"
proof -
  have "(k, e) \<in> set es" by (rule map_of_SomeD [OF assms(2)])
  then have "entry_at cs k e" using assms(1) by (auto simp: mirrors_def)
  then show "unat (store_index e) < length cs" "ce_key (cs ! unat (store_index e)) = k"
    by (simp_all add: entry_at_def Let_def)
qed

lemma derive_is_key: "derive_store_key keccak a b = key_from_assets keccak a b"
  by (simp add: derive_store_key_def key_from_assets_def)

lemma configured_entry:
  assumes "auth_configure_pool keccak lim caller a0 a1 spacing fee ufee a = Some a'"
    and "key_from_assets keccak a0 a1 \<notin> ce_key ` set (config_store a)"
  shows "\<exists>e. config_store a' = config_store a @ [e] \<and> ce_key e = key_from_assets keccak a0 a1 \<and>
    ce_tick_spacing e = spacing \<and> ce_bundle_fee e = fee"
proof -
  let ?k = "key_from_assets keccak a0 a1"
  have "find_entry ?k (config_store a) = None" using assms(2) by (simp add: find_entry_None)
  then obtain e0 e where e: "set_tick_spacing lim spacing (push_bit 40 (ucast ?k)) = Some e0" "set_bundle_fee fee e0 = Some e"
    and "config_store a' = config_store a @ [e]"
    using assms(1)
    by (auto simp: auth_configure_pool_def entry_init_def bind_eq_Some_conv Let_def store_from_buffer_def
        set_unlocked_fee_def split: if_splits)
  with set_tick_spacing_fields [OF e(1)] set_bundle_fee_fields [OF e(2)] show ?thesis
    by (auto simp: ce_key_shift)
qed

text \<open>
  C11. When the controller configures a pool that is not configured yet, the node that applies the
  event keeps a copy of the contract's entries, position for position.
\<close>
theorem configured_pool_mirrored:
  assumes "mirrors (eth_pool_store m) (config_store a)"
    and "auth_configure_pool (eth_keccak env) lim caller a0 a1 spacing fee ufee a = Some a'"
    and "key_from_assets (eth_keccak env) a0 a1 \<notin> ce_key ` set (config_store a)"
    and "length (config_store a) < 2 ^ 64"
  shows "mirrors (eth_pool_store (apply_event env (PoolConfigured a0 a1 spacing fee ufee) m)) (config_store a')"
proof -
  let ?k = "key_from_assets (eth_keccak env) a0 a1" and ?es = "eth_pool_store m" and ?cs = "config_store a"
  obtain w where w: "config_store a' = ?cs @ [w]" "ce_key w = ?k" "ce_tick_spacing w = spacing" "ce_bundle_fee w = fee"
    using configured_entry [OF assms(2,3)] by blast
  let ?e = "\<lparr>pool_partial_key = ?k, tick_spacing = spacing, fee_in_e6 = ucast fee, store_index = store_length ?es\<rparr>"
  have keys: "fst ` set ?es = ce_key ` set ?cs" using assms(1) by (simp add: mirrors_def)
  have idx: "unat (store_length ?es) = length ?cs"
    using mirrors_length [OF assms(1)] assms(4) by (simp add: store_length_def unat_of_nat_fits)
  have old: "entry_at (?cs @ [w]) (fst p) (snd p)" if "p \<in> set ?es" for p
  proof -
    have "entry_at ?cs (fst p) (snd p)" using assms(1) that by (auto simp: mirrors_def)
    then show ?thesis by (simp add: entry_at_def Let_def nth_append)
  qed
  have "entry_at (?cs @ [w]) ?k ?e" using w idx by (simp add: entry_at_def)
  moreover have "AList.update ?k ?e ?es = ?es @ [(?k, ?e)]" using assms(3) keys by (intro update_fresh) simp
  ultimately have "mirrors (AList.update ?k ?e ?es) (?cs @ [w])"
    using assms(1,3) keys old w(2) unfolding mirrors_def split_def by auto
  then show ?thesis by (simp add: w(1) send_events_def store_new_pool_def derive_is_key)
qed

text \<open>
  C21. When the controller configures a pool again, to change its fee, the contract edits the entry in
  place; the node gives the pool the index behind the last one, and no longer mirrors the contract.
\<close>
theorem reconfigured_pool_not_mirrored:
  assumes "mirrors (eth_pool_store m) (config_store a)"
    and "auth_configure_pool (eth_keccak env) lim caller a0 a1 spacing fee ufee a = Some a'"
    and "key_from_assets (eth_keccak env) a0 a1 \<in> ce_key ` set (config_store a)"
    and "length (config_store a) < 2 ^ 64"
  shows "\<not> mirrors (eth_pool_store (apply_event env (PoolConfigured a0 a1 spacing fee ufee) m)) (config_store a')"
proof
  let ?k = "key_from_assets (eth_keccak env) a0 a1" and ?es = "eth_pool_store m" and ?cs = "config_store a"
  let ?es' = "eth_pool_store (apply_event env (PoolConfigured a0 a1 spacing fee ufee) m)"
  assume m: "mirrors ?es' (config_store a')"
  have "map ce_key (config_store a') = map ce_key ?cs"
    using auth_configure_pool_Some(2) [OF assms(2)] assms(3) by simp
  then have len: "length (config_store a') = length ?cs" by (metis length_map)
  have "map_of ?es' ?k = Some \<lparr>pool_partial_key = ?k, tick_spacing = spacing, fee_in_e6 = ucast fee,
      store_index = store_length ?es\<rparr>"
    by (simp add: send_events_def store_new_pool_def derive_is_key update_conv')
  from mirrors_lookup(1) [OF m this] len mirrors_length [OF assms(1)] assms(4) show False
    by (simp add: store_length_def unat_of_nat_fits)
qed

lemma unat_shift_down:
  "unat (store_index (shift_down i e)) = (if i < store_index e then unat (store_index e) - 1 else unat (store_index e))"
proof (cases "i < store_index e")
  case True
  then have "store_index e \<noteq> 0" by auto
  with True show ?thesis by (simp add: shift_down_def unat_minus_one)
qed (simp add: shift_down_def)

lemma shift_down_fields [simp]:
  "pool_partial_key (shift_down i e) = pool_partial_key e" "tick_spacing (shift_down i e) = tick_spacing e"
  "fee_in_e6 (shift_down i e) = fee_in_e6 e"
  by (simp_all add: shift_down_def)

text \<open>Where the removal from the copy moves the entry at a position.\<close>

lemma shifted_entry_at:
  assumes "distinct (map ce_key cs)" "i < length cs" "entry_at cs k e" "k \<noteq> ce_key (cs ! i)" "unat w = i"
  shows "entry_at (swap_remove i cs) k (shift_down w e) \<longleftrightarrow>
    (if unat (store_index e) < i then True else i = length cs - 2 \<and> unat (store_index e) = length cs - 1)"
proof -
  let ?j = "unat (store_index e)" and ?n = "length cs"
  have j: "?j < ?n" "ce_key (cs ! ?j) = k" using assms(3) by (simp_all add: entry_at_def Let_def)
  then have ne: "?j \<noteq> i" using assms(4) by auto
  have gt: "w < store_index e \<longleftrightarrow> i < ?j" using assms(5) by (simp add: word_less_nat_alt)
  have inj: "ce_key (cs ! x) = k \<longleftrightarrow> x = ?j" if "x < ?n" for x
    using assms(1) j that by (auto simp: distinct_conv_nth)
  show ?thesis
  proof (cases "?j < i")
    case True
    then have "swap_remove i cs ! ?j = cs ! ?j" "?j < ?n - 1" using assms(2) by (auto simp: nth_swap_remove)
    with True assms(3) gt show ?thesis by (simp add: entry_at_def Let_def unat_shift_down)
  next
    case False
    then have lt: "i < ?j" using ne by simp
    have pos: "unat (store_index (shift_down w e)) = ?j - 1" using lt gt by (simp add: unat_shift_down)
    have "swap_remove i cs ! (?j - 1) = (if ?j - 1 = i then cs ! (?n - 1) else cs ! (?j - 1))"
      using lt j(1) assms(2) by (intro nth_swap_remove) auto
    then have "ce_key (swap_remove i cs ! (?j - 1)) = k \<longleftrightarrow> ?j - 1 = i \<and> ?j = ?n - 1"
      using inj [of "?n - 1"] inj [of "?j - 1"] lt j(1) by auto
    moreover have "?j - 1 = i \<and> ?j = ?n - 1 \<Longrightarrow> swap_remove i cs ! (?j - 1) = cs ! ?j"
      using lt j(1) assms(2) by (auto simp: nth_swap_remove)
    moreover have "?j - 1 < ?n - 1" using lt j(1) by simp
    ultimately show ?thesis
      using False assms(3) lt j(1) by (auto simp: entry_at_def Let_def pos)
  qed
qed

lemma remove_pair_keys:
  assumes "map_of es (derive_store_key keccak a b) = Some e"
  shows "map fst (remove_pair keccak a b es) = filter (\<lambda>k. k \<noteq> derive_store_key keccak a b) (map fst es)"
    "set (remove_pair keccak a b es) =
       (\<lambda>p. (fst p, shift_down (store_index e) (snd p))) ` {p \<in> set es. fst p \<noteq> derive_store_key keccak a b}"
proof -
  have "AList.delete (derive_store_key keccak a b) es = filter (\<lambda>p. fst p \<noteq> derive_store_key keccak a b) es"
    by (auto simp: AList.delete_eq intro!: filter_cong)
  with assms have eq: "remove_pair keccak a b es = map (\<lambda>p. (fst p, shift_down (store_index e) (snd p)))
      (filter (\<lambda>p. fst p \<noteq> derive_store_key keccak a b) es)"
    by (simp add: remove_pair_def split_def)
  show "map fst (remove_pair keccak a b es) = filter (\<lambda>k. k \<noteq> derive_store_key keccak a b) (map fst es)"
    "set (remove_pair keccak a b es) =
       (\<lambda>p. (fst p, shift_down (store_index e) (snd p))) ` {p \<in> set es. fst p \<noteq> derive_store_key keccak a b}"
    by (simp_all add: eq comp_def filter_map)
qed

text \<open>Every entry but the removed one has to agree for the copy to mirror the contract.\<close>

lemma removed_mirrors:
  assumes "mirrors es cs" "map_of es k = Some e" "derive_store_key keccak a b = k"
  shows "mirrors (remove_pair keccak a b es) (swap_remove (unat (store_index e)) cs) \<longleftrightarrow>
    (\<forall>p \<in> set es. fst p \<noteq> k \<longrightarrow> entry_at (swap_remove (unat (store_index e)) cs) (fst p) (shift_down (store_index e) (snd p)))"
proof -
  let ?i = "unat (store_index e)" and ?es' = "remove_pair keccak a b es"
  note r = remove_pair_keys [of es keccak a b e, unfolded assms(3), OF assms(2)]
  note e = mirrors_lookup [OF assms(1,2)]
  have d: "distinct (map fst es)" "distinct (map ce_key cs)" "fst ` set es = ce_key ` set cs"
    using assms(1) by (simp_all add: mirrors_def)
  have cs': "map ce_key (swap_remove ?i cs) = swap_remove ?i (map ce_key cs)"
    using e(1) by (intro map_swap_remove) auto
  have "distinct (map fst ?es')" using d(1) by (simp only: r(1) distinct_filter)
  moreover have "distinct (map ce_key (swap_remove ?i cs))"
    using distinct_swap_remove [OF d(2)] e(1) by (simp only: cs' length_map)
  moreover have "set (map fst ?es') = set (map ce_key (swap_remove ?i cs))"
    using set_swap_remove [OF d(2), of ?i] e d(3) by (auto simp: r(1) cs' simp del: map_map)
  ultimately show ?thesis by (auto simp: mirrors_def r(2))
qed

text \<open>Positions below n: all but position i are below it, or the last of them follows it, if i is one of the last two.\<close>

lemma last_two_iff:
  fixes idx :: "'p \<Rightarrow> nat"
  assumes "i < n" "\<And>p. p \<in> S \<Longrightarrow> idx p < n" "p' \<in> S" "idx p' = n - 1"
  shows "(\<forall>p \<in> S. idx p \<noteq> i \<longrightarrow> idx p < i \<or> i = n - 2 \<and> idx p = n - 1) \<longleftrightarrow> n \<le> i + 2"
proof
  assume "\<forall>p \<in> S. idx p \<noteq> i \<longrightarrow> idx p < i \<or> i = n - 2 \<and> idx p = n - 1"
  then have "idx p' \<noteq> i \<longrightarrow> idx p' < i \<or> i = n - 2 \<and> idx p' = n - 1" using assms(3) by blast
  with assms(1,4) show "n \<le> i + 2" by linarith
next
  assume n: "n \<le> i + 2"
  show "\<forall>p \<in> S. idx p \<noteq> i \<longrightarrow> idx p < i \<or> i = n - 2 \<and> idx p = n - 1"
  proof (intro ballI impI)
    fix p assume "p \<in> S" "idx p \<noteq> i"
    with assms(1,2) n show "idx p < i \<or> i = n - 2 \<and> idx p = n - 1" by fastforce
  qed
qed

lemma mirrors_positions:
  assumes "mirrors es cs" "p \<in> set es" "i < length cs"
  shows "unat (store_index (snd p)) = i \<longleftrightarrow> fst p = ce_key (cs ! i)" "unat (store_index (snd p)) < length cs"
proof -
  let ?j = "unat (store_index (snd p))"
  have j: "?j < length cs" "ce_key (cs ! ?j) = fst p" and d: "distinct (map ce_key cs)"
    using assms(1,2) by (auto simp: mirrors_def entry_at_def Let_def)
  then show "?j < length cs" by simp
  have "map ce_key cs ! ?j = map ce_key cs ! i \<longleftrightarrow> ?j = i"
    using nth_eq_iff_index_eq [OF d] j(1) assms(3) by simp
  then show "?j = i \<longleftrightarrow> fst p = ce_key (cs ! i)" using j assms(3) by auto
qed

text \<open>
  C10. The contract removes a pool by moving its last entry into the gap, the node by moving every
  entry behind the gap down. The two agree exactly if the pool is one of the last two.
\<close>
theorem removed_pool_mirrored_iff:
  assumes "mirrors (eth_pool_store m) (config_store a)"
    and "map_of (eth_pool_store m) (key_from_assets (eth_keccak env) a0 a1) = Some e"
    and "auth_remove_pool caller (key_from_assets (eth_keccak env) a0 a1) (store_address a) (unat (store_index e)) a = Some a'"
  shows "mirrors (eth_pool_store (apply_event env (PoolRemoved a0 a1 spacing fee) m)) (config_store a') \<longleftrightarrow>
    length (config_store a) \<le> unat (store_index e) + 2"
proof -
  let ?k = "key_from_assets (eth_keccak env) a0 a1" and ?es = "eth_pool_store m" and ?cs = "config_store a"
  let ?i = "unat (store_index e)" and ?n = "length (config_store a)" and ?j = "\<lambda>p. unat (store_index (snd p))"
  note e = mirrors_lookup [OF assms(1,2)]
  note pos = mirrors_positions [OF assms(1)]
  have cs': "config_store a' = swap_remove ?i ?cs"
    using assms(3) by (auto simp: auth_remove_pool_def bind_eq_Some_conv remove_entry_swap unset_unlocked_fee_def
        store_from_buffer_def split: if_splits)
  have d: "distinct (map ce_key ?cs)" "fst ` set ?es = ce_key ` set ?cs" using assms(1) by (simp_all add: mirrors_def)
  have at: "entry_at ?cs (fst p) (snd p)" if "p \<in> set ?es" for p using assms(1) that by (auto simp: mirrors_def)
  have "?n - 1 < ?n" using e(1) by simp
  then have "ce_key (?cs ! (?n - 1)) \<in> fst ` set ?es" using d(2) by simp
  then obtain p' where p': "p' \<in> set ?es" "fst p' = ce_key (?cs ! (?n - 1))" by fastforce
  have "?j p' = ?n - 1" using pos(1) [OF p'(1) \<open>?n - 1 < ?n\<close>] p'(2) by simp
  have iff: "entry_at (swap_remove ?i ?cs) (fst p) (shift_down (store_index e) (snd p)) \<longleftrightarrow>
      ?j p < ?i \<or> ?i = ?n - 2 \<and> ?j p = ?n - 1" if "p \<in> set ?es" "?j p \<noteq> ?i" for p
  proof -
    have "fst p \<noteq> ce_key (?cs ! ?i)" using pos(1) [OF that(1) e(1)] that(2) by simp
    from shifted_entry_at [OF d(1) e(1) at [OF that(1)] this refl] show ?thesis by simp
  qed
  have "mirrors (eth_pool_store (apply_event env (PoolRemoved a0 a1 spacing fee) m)) (config_store a') \<longleftrightarrow>
      (\<forall>p \<in> set ?es. fst p \<noteq> ?k \<longrightarrow> entry_at (swap_remove ?i ?cs) (fst p) (shift_down (store_index e) (snd p)))"
    unfolding cs' using removed_mirrors [OF assms(1,2) derive_is_key] by (simp add: send_events_def)
  also have "\<dots> \<longleftrightarrow> (\<forall>p \<in> set ?es. ?j p \<noteq> ?i \<longrightarrow> ?j p < ?i \<or> ?i = ?n - 2 \<and> ?j p = ?n - 1)"
  proof (intro ball_cong refl)
    fix p assume p: "p \<in> set ?es"
    show "(fst p \<noteq> ?k \<longrightarrow> entry_at (swap_remove ?i ?cs) (fst p) (shift_down (store_index e) (snd p))) \<longleftrightarrow>
        (?j p \<noteq> ?i \<longrightarrow> ?j p < ?i \<or> ?i = ?n - 2 \<and> ?j p = ?n - 1)"
      using pos(1) [OF p e(1)] iff [OF p] unfolding e(2) by (cases "?j p = ?i") simp_all
  qed
  also have "\<dots> \<longleftrightarrow> ?n \<le> ?i + 2"
    by (rule last_two_iff [where idx = ?j and p' = p']) (use e(1) pos(2) p'(1) \<open>?j p' = ?n - 1\<close> in auto)
  finally show ?thesis .
qed

section \<open>Tokens, nodes and fills\<close>

lemma map_of_token_entry: "map_of (snd (token_entry a ts)) t = Some n \<longleftrightarrow>
    map_of ts t = Some n \<or> t = a \<and> map_of ts t = None \<and> n = 0"
  by (auto simp: token_entry_def update_conv' split: option.split)

lemma forget_tokens_keeps:
  assumes "map_of ts t = Some n" "n \<noteq> 1"
  shows "map_of (forget_tokens a b ts) t = Some n"
proof -
  obtain t0 ts1 t1 ts2 where e: "token_entry a ts = (t0, ts1)" "token_entry b ts1 = (t1, ts2)" by fastforce
  have 1: "map_of ts1 t = Some n" using assms e(1) map_of_token_entry [of a ts t n] by simp
  then have 2: "map_of ts2 t = Some n" using e(2) map_of_token_entry [of b ts1 t n] by simp
  have "t0 = 1 \<Longrightarrow> t \<noteq> a" using assms e(1) by (auto simp: token_entry_def split: option.splits)
  moreover have "t1 = 1 \<Longrightarrow> t \<noteq> b" using 1 assms(2) e(2) by (auto simp: token_entry_def split: option.splits)
  ultimately show ?thesis using 2 by (auto simp: forget_tokens_def e delete_conv')
qed

definition is_removal :: "controller_event \<Rightarrow> bool" where
  "is_removal ev \<longleftrightarrow> (\<exists>a b s f. ev = PoolRemoved a b s f)"

text \<open>
  C24. A token that is in two pools is never forgotten: the counter of its pools does not go down
  when one of them is removed, so that however many removals follow, its transfers are
  still watched as if it were in both pools.
\<close>
theorem token_never_forgotten:
  assumes "map_of (angstrom_tokens m) t = Some n" "n \<noteq> 1" "\<forall>ev \<in> set evs. is_removal ev"
  shows "map_of (angstrom_tokens (fold (apply_event env) evs m)) t = Some n"
  using assms(1,3)
proof (induction evs arbitrary: m)
  case (Cons ev evs)
  then obtain a b s f where "ev = PoolRemoved a b s f" by (auto simp: is_removal_def)
  then have "map_of (angstrom_tokens (apply_event env ev m)) t = Some n"
    using forget_tokens_keeps [OF Cons.prems(1) assms(2)] by (simp add: send_events_def)
  with Cons.IH Cons.prems(2) show ?case by simp
qed simp

text \<open>The node that applies every event of a controller knows its nodes.\<close>

fun nodes_after :: "controller_event \<Rightarrow> address set \<Rightarrow> address set" where
  "nodes_after (NodeAdded n) ns = insert n ns"
| "nodes_after (NodeRemoved n) ns = ns - {n}"
| "nodes_after ev ns = ns"

lemma node_set_apply: "set (node_set (apply_event env ev m)) = nodes_after ev (set (node_set m))"
  by (cases ev) (auto simp: send_events_def Let_def)

text \<open>One call of the controller emits one event, which says what happens to the nodes.\<close>

definition emits_one :: "controller_v1 \<Rightarrow> controller_v1 \<Rightarrow> bool" where
  "emits_one c c' \<longleftrightarrow> (\<exists>ev. ctl_events c' = ctl_events c @ [ev] \<and> ctl_nodes c' = nodes_after ev (ctl_nodes c))"

lemma emits_one_steps:
  "configure_pool keccak lim self caller x y spacing fee ufee c = Some c' \<Longrightarrow> emits_one c c'"
  "remove_pool keccak self caller x y c = Some c' \<Longrightarrow> emits_one c c'"
  "batch_update_pools keccak self caller us c = Some c' \<Longrightarrow> emits_one c c'"
  "add_node self caller n c = Some c' \<Longrightarrow> emits_one c c'"
  "remove_node self caller n c = Some c' \<Longrightarrow> emits_one c c'"
  "set_new_controller caller n c = Some c' \<Longrightarrow> emits_one c c'"
  "accept_new_controller self caller c = Some c' \<Longrightarrow> emits_one c c'"
  by (auto simp: emits_one_def configure_pool_def remove_pool_def batch_update_pools_def add_node_def remove_node_def
      set_new_controller_def accept_new_controller_def emit_def bind_eq_Some_conv Let_def
      split: if_splits prod.splits)

lemma nodes_followed_step:
  "emits_one c c' \<Longrightarrow> set (node_set (fold (apply_event env) (ctl_events c) m)) = ctl_nodes c \<Longrightarrow>
   set (node_set (fold (apply_event env) (ctl_events c') m)) = ctl_nodes c'"
  by (auto simp: emits_one_def node_set_apply)

lemmas nodes_steps = emits_one_steps [THEN nodes_followed_step]

text \<open>
  C12. A node that starts without nodes and applies the events of a controller in their order
  knows exactly the nodes that the controller has, which are those the exchange accepts.
\<close>
theorem nodes_followed:
  assumes "controller_run keccak lim self own c" "node_set m = []"
  shows "set (node_set (fold (apply_event env) (ctl_events c) m)) = ctl_nodes c"
  using assms(1)
proof (induction rule: controller_run.induct)
  case ctl_start
  show ?case by (simp add: controller_new_def assms(2))
qed (erule (1) nodes_steps)+


section \<open>Witnesses\<close>

text \<open>A node with three pools that mirrors the contract, and a chain whose tip has one bundle with one order.\<close>

definition sample_store :: "u256 list" where
  "sample_store = map (\<lambda>k. push_bit 40 (ucast (k :: store_key))) [515, 516, 517]"

definition sample_eth :: "pool_config_store \<Rightarrow> eth_data_cleanser" where
  "sample_eth es = \<lparr>eth_angstrom_address = 7, periphery_address = 9, event_listeners = [], angstrom_tokens = [(2, 3)],
     eth_block_sync = new_sync 5, eth_pool_store = es, node_set = [], sent_events = [], rebroadcast = []\<rparr>"

definition sample_eth_env :: eth_env where
  "sample_eth_env = \<lparr>eth_keccak = sample_keccak, bundle_hashes = (\<lambda>_ _. Some [42]), bundle_accounts = (\<lambda>_ _. Some []),
     listening = (\<lambda>_. True)\<rparr>"

definition sample_auth :: "u256 list \<Rightarrow> top_level_auth" where
  "sample_auth cs = (auth_new 9)\<lparr>config_store := cs\<rparr>"

definition sample_chain :: chain where
  "sample_chain = \<lparr>tip_number = 6, tip_logs = None, tip_transactions = [\<lparr>tx_to = Some 7, tx_input = []\<rparr>], chain_blocks = []\<rparr>"

lemma sample_fields [simp]:
  "eth_pool_store (sample_eth es) = es" "eth_keccak sample_eth_env = sample_keccak"
  "config_store (sample_auth cs) = cs" "store_address (sample_auth cs) = 0"
  by (simp_all add: sample_eth_def sample_eth_env_def sample_auth_def auth_new_def)

lemma sample_store_keys: "map ce_key sample_store = [515, 516, 517]"
  by (simp add: sample_store_def ce_key_shift del: list.map) (simp add: comp_def ce_key_shift)

lemma sample_mirrors: "mirrors (loaded sample_store) sample_store"
  by (rule loaded_mirrors) (simp_all only: sample_store_keys, simp_all add: sample_store_def)

lemma sample_loaded: "map_of (loaded sample_store) 515 = Some (snd (loaded sample_store ! 0))" "length sample_store = 3"
  "unat (store_index (snd (loaded sample_store ! 0))) = 0"
proof -
  show l: "length sample_store = 3" by (simp add: sample_store_def)
  have k: "map fst (loaded sample_store) = [515, 516, 517]" by (simp only: loaded_keys sample_store_keys)
  then show "map_of (loaded sample_store) 515 = Some (snd (loaded sample_store ! 0))"
    by (cases "loaded sample_store") (auto simp: map_eq_Cons_conv)
  show "unat (store_index (snd (loaded sample_store ! 0))) = 0" using l by (simp add: loaded_nth)
qed

lemma sample_keys: "key_from_assets sample_keccak 2 3 = 515" "key_from_assets sample_keccak 2 6 = 518"
  by (simp_all add: sample_key)

lemma sample_store_key_set: "ce_key ` set sample_store = {515, 516, 517}"
  using arg_cong [OF sample_store_keys, of set] by simp

lemma sample_configure:
  "\<exists>a'. auth_configure_pool sample_keccak (1, 32767) 9 2 x 60 3000 0 (sample_auth sample_store) = Some a'" if "2 < x"
proof -
  have "entry_init (1, 32767) k 60 3000 \<noteq> None" "set_tick_spacing (1, 32767) 60 w \<noteq> None" "set_bundle_fee 3000 w \<noteq> None" for k w
    by (simp_all add: entry_init_def set_tick_spacing_def set_bundle_fee_def check_tick_spacing_def check_bundle_fee_def
        max_fee_def)
  then show ?thesis
    using that by (cases "find_entry (key_from_assets sample_keccak 2 x) sample_store")
      (fastforce simp: auth_configure_pool_def only_controller_def sample_auth_def auth_new_def set_unlocked_fee_def
        max_unlock_fee_bps_def Let_def bind_eq_Some_conv)+
qed

theorem configured_pool_mirrored_witness:
  "\<exists>a'. auth_configure_pool sample_keccak (1, 32767) 9 2 6 60 3000 0 (sample_auth sample_store) = Some a' \<and>
     mirrors (eth_pool_store (apply_event sample_eth_env (PoolConfigured 2 6 60 3000 0) (sample_eth (loaded sample_store))))
       (config_store a')"
proof -
  obtain a' where a': "auth_configure_pool sample_keccak (1, 32767) 9 2 6 60 3000 0 (sample_auth sample_store) = Some a'"
    using sample_configure [of 6] by auto
  have "mirrors (eth_pool_store (apply_event sample_eth_env (PoolConfigured 2 6 60 3000 0) (sample_eth (loaded sample_store))))
       (config_store a')"
  proof (rule configured_pool_mirrored)
    show "auth_configure_pool (eth_keccak sample_eth_env) (1, 32767) 9 2 6 60 3000 0 (sample_auth sample_store) = Some a'"
      using a' by (simp only: sample_fields)
  qed (simp_all add: sample_mirrors sample_keys sample_store_key_set sample_loaded(2))
  with a' show ?thesis by blast
qed

theorem reconfigured_pool_not_mirrored_witness:
  "\<exists>a'. auth_configure_pool sample_keccak (1, 32767) 9 2 3 60 3000 0 (sample_auth sample_store) = Some a' \<and>
     \<not> mirrors (eth_pool_store (apply_event sample_eth_env (PoolConfigured 2 3 60 3000 0) (sample_eth (loaded sample_store))))
       (config_store a')"
proof -
  obtain a' where a': "auth_configure_pool sample_keccak (1, 32767) 9 2 3 60 3000 0 (sample_auth sample_store) = Some a'"
    using sample_configure [of 3] by auto
  have "\<not> mirrors (eth_pool_store (apply_event sample_eth_env (PoolConfigured 2 3 60 3000 0) (sample_eth (loaded sample_store))))
       (config_store a')"
  proof (rule reconfigured_pool_not_mirrored)
    show "auth_configure_pool (eth_keccak sample_eth_env) (1, 32767) 9 2 3 60 3000 0 (sample_auth sample_store) = Some a'"
      using a' by (simp only: sample_fields)
  qed (simp_all add: sample_mirrors sample_keys sample_store_key_set sample_loaded(2))
  with a' show ?thesis by blast
qed

theorem removed_pool_mirrored_iff_witness:
  "\<exists>a'. auth_remove_pool 9 515 0 0 (sample_auth sample_store) = Some a' \<and>
     \<not> mirrors (eth_pool_store (apply_event sample_eth_env (PoolRemoved 2 3 60 3000) (sample_eth (loaded sample_store))))
       (config_store a')"
proof -
  let ?e = "snd (loaded sample_store ! 0)"
  have "ce_key (sample_store ! 0) = 515" using sample_store_keys sample_loaded(2) by (metis nth_Cons_0 nth_map zero_less_numeral)
  then obtain a' where a': "auth_remove_pool 9 515 0 0 (sample_auth sample_store) = Some a'"
    by (auto simp: auth_remove_pool_def only_controller_def sample_auth_def auth_new_def remove_entry_swap sample_loaded(2))
  have "mirrors (eth_pool_store (apply_event sample_eth_env (PoolRemoved 2 3 60 3000) (sample_eth (loaded sample_store))))
      (config_store a') \<longleftrightarrow> length (config_store (sample_auth sample_store)) \<le> unat (store_index ?e) + 2"
  proof (rule removed_pool_mirrored_iff)
    show "auth_remove_pool 9 (key_from_assets (eth_keccak sample_eth_env) 2 3) (store_address (sample_auth sample_store))
        (unat (store_index ?e)) (sample_auth sample_store) = Some a'"
      using a' by (simp add: sample_keys sample_loaded)
  qed (simp_all add: sample_mirrors sample_keys sample_loaded)
  then have "\<not> mirrors (eth_pool_store (apply_event sample_eth_env (PoolRemoved 2 3 60 3000) (sample_eth (loaded sample_store))))
      (config_store a')" unfolding sample_fields sample_loaded by simp
  with a' show ?thesis by blast
qed

theorem token_never_forgotten_witness:
  "map_of (angstrom_tokens (fold (apply_event sample_eth_env)
      [PoolRemoved 2 3 60 1, PoolRemoved 2 4 60 1, PoolRemoved 2 5 60 1] (sample_eth []))) 2 = Some 3"
  by (rule token_never_forgotten) (simp_all add: sample_eth_def is_removal_def)

theorem nodes_followed_witness:
  "\<exists>c. controller_run sample_keccak (1, 32767) 9 8 c \<and> ctl_nodes c = {4} \<and>
     set (node_set (fold (apply_event sample_eth_env) (ctl_events c) (sample_eth []))) = {4}"
proof -
  obtain c where c: "add_node 9 8 4 (controller_new 9 8) = Some c" "ctl_nodes c = {4}"
    by (simp add: add_node_def check_owner_def controller_new_def emit_def toggle_nodes_def only_controller_def auth_new_def)
  have run: "controller_run sample_keccak (1, 32767) 9 8 c" by (rule ctl_add_node [OF ctl_start c(1)])
  have "set (node_set (fold (apply_event sample_eth_env) (ctl_events c) (sample_eth []))) = ctl_nodes c"
    by (rule nodes_followed [OF run]) (simp add: sample_eth_def)
  with run c(2) show ?thesis by auto
qed


end
