(* ===== verification/Token_Pricing.thy ===== *)
theory Token_Pricing
  imports Eth_Manager
begin

text \<open>
  The price of gas in the first token of a pair: \<^verbatim>\<open>types/src/pair_with_price.rs\<close> and
  \<^verbatim>\<open>validation/src/common/token_pricing.rs\<close>. For each pool the generator keeps the prices of the last blocks, and
  the price of the gas token is their average, through one more pool where the pair has no gas token.
  The pools are those of the package \<^verbatim>\<open>uniswap-v4\<close>, of which the tokens and the square-root price are read; the
  history that the provider returns is a parameter.
\<close>

section \<open>State\<close>

record pairs_with_price =
  pwp_token0 :: address
  pwp_token1 :: address
  price_1_over_0 :: ray
  block_num :: u64

record uni_pool =
  up_token0 :: address
  up_token1 :: address
  up_sqrt_price :: u256

definition pool_price :: "uni_pool \<Rightarrow> ray option" where
  "pool_price p = do { s \<leftarrow> from_limbs_slice (unat (up_sqrt_price p)); ray_from_sqrt s }"

record token_price_generator =
  uniswap_pools :: "(b256 \<times> uni_pool) list"
  prev_prices :: "(b256 \<times> pairs_with_price list) list"
  pair_to_pool :: "((address \<times> address) \<times> b256) list"
  base_gas_token :: address
  cur_block :: u64
  blocks_to_avg_price :: u64
  base_wei :: u128

definition blocks_to_avg_price_default :: u64 where
  "blocks_to_avg_price_default = 15"

text \<open>What the provider loads for a pool at a block; None is the panic when it fails.\<close>

type_synonym pool_history = "b256 \<Rightarrow> u64 \<Rightarrow> (address \<times> address \<times> u160) option"

fun load_prices :: "pool_history \<Rightarrow> b256 \<Rightarrow> u64 list \<Rightarrow> pairs_with_price list option" where
  "load_prices load k [] = Some []"
| "load_prices load k (b # bs) =
     do { (t0, t1, s) \<leftarrow> load k b;
          price \<leftarrow> ray_from_sqrt s;
          q \<leftarrow> load_prices load k bs;
          Some (\<lparr>pwp_token0 = t0, pwp_token1 = t1, price_1_over_0 = price, block_num = b\<rparr> # q) }"

fun load_pools :: "pool_history \<Rightarrow> u64 list \<Rightarrow> (b256 \<times> uni_pool) list \<Rightarrow> (b256 \<times> pairs_with_price list) list option" where
  "load_pools load bs [] = Some []"
| "load_pools load bs ((k, p) # ps) =
     do { q \<leftarrow> load_prices load k bs; qs \<leftarrow> load_pools load bs ps; Some ((k, q) # qs) }"

definition generator_new :: "pool_history \<Rightarrow> u128 \<Rightarrow> u64 \<Rightarrow> (b256 \<times> uni_pool) list \<Rightarrow> address \<Rightarrow> u64 option \<Rightarrow>
    token_price_generator option" where
  "generator_new load gas_wei current uni gas_token n_override =
     (let n = (case n_override of None \<Rightarrow> blocks_to_avg_price_default | Some n \<Rightarrow> n);
          bs = map of_nat [unat (saturating_sub current n)..<unat current]
      in do { qs \<leftarrow> load_pools load bs uni;
              Some \<lparr>uniswap_pools = uni, prev_prices = qs,
                    pair_to_pool = fold (\<lambda>(k, p). AList.update (up_token0 p, up_token1 p) k) uni [],
                    base_gas_token = gas_token, cur_block = current, blocks_to_avg_price = n,
                    base_wei = gas_wei\<rparr> })"

section \<open>Prices from the chain\<close>

text \<open>The parts of a bundle that are read, and the two decodings, which are parameters.\<close>

record settled_bundle =
  sb_assets :: "address list"
  sb_pairs :: "(16 word \<times> 16 word \<times> u256) list"

record price_env =
  decode_execute :: "u8 list \<Rightarrow> u8 list option"
  decode_bundle :: "u8 list \<Rightarrow> settled_bundle option"

text \<open>An index that is out of range panics.\<close>

fun from_angstrom_bundle :: "u64 \<Rightarrow> address list \<Rightarrow> (16 word \<times> 16 word \<times> u256) list \<Rightarrow> pairs_with_price list option" where
  "from_angstrom_bundle b assets [] = Some []"
| "from_angstrom_bundle b assets ((i, j, price) # ps) =
     (if length assets \<le> unat i \<or> length assets \<le> unat j then None
      else do { rest \<leftarrow> from_angstrom_bundle b assets ps;
                Some (\<lparr>pwp_token0 = assets ! unat i, pwp_token1 = assets ! unat j, price_1_over_0 = price,
                       block_num = b\<rparr> # rest) })"

text \<open>
  The first bundle among the transactions to the exchange. The call is unwrapped, so that any other
  call before it panics.
\<close>

fun first_bundle :: "price_env \<Rightarrow> address \<Rightarrow> chain_tx list \<Rightarrow> settled_bundle option option" where
  "first_bundle env a [] = Some None"
| "first_bundle env a (tx # txs) =
     (if tx_to tx \<noteq> Some a then first_bundle env a txs
      else case decode_execute env (tx_input tx) of
             None \<Rightarrow> None
           | Some bytes \<Rightarrow> (case decode_bundle env bytes of
                 None \<Rightarrow> first_bundle env a txs
               | Some bundle \<Rightarrow> Some (Some bundle)))"

primrec new_chain :: "canon_state_notification \<Rightarrow> chain" where
  "new_chain (Reorg old new) = new"
| "new_chain (Commit new) = new"

definition price_update :: "price_env \<Rightarrow> address \<Rightarrow> canon_state_notification \<Rightarrow> pairs_with_price list option" where
  "price_update env a note =
     do { b \<leftarrow> first_bundle env a (tip_transactions (new_chain note));
          (case b of
             None \<Rightarrow> Some []
           | Some bundle \<Rightarrow> from_angstrom_bundle (tip_number (new_chain note)) (sb_assets bundle) (sb_pairs bundle)) }"

section \<open>A new block\<close>

text \<open>The queue drops its front only when it has just grown past the window.\<close>

definition trim :: "u64 \<Rightarrow> pairs_with_price list \<Rightarrow> pairs_with_price list" where
  "trim n q = (if of_nat (length q) = n + 1 then tl q else q)"

text \<open>The pool of an update: known by its pair, or found among the pools, which starts a new queue.\<close>

definition pool_of_update :: "pairs_with_price \<Rightarrow> token_price_generator \<Rightarrow> (b256 \<times> token_price_generator) option" where
  "pool_of_update u g =
     (let pair = (pwp_token0 u, pwp_token1 u)
      in case map_of (pair_to_pool g) pair of
           Some k \<Rightarrow> Some (k, g)
         | None \<Rightarrow>
             (case find (\<lambda>(k, p). up_token0 p = pwp_token0 u \<and> up_token1 p = pwp_token1 u) (uniswap_pools g) of
                None \<Rightarrow> None
              | Some (k, p) \<Rightarrow>
                  Some (k, g\<lparr>pair_to_pool := AList.update pair k (pair_to_pool g),
                            prev_prices := AList.update k [] (prev_prices g)\<rparr>)))"

definition replace_price_if_empty :: "ray option \<Rightarrow> pairs_with_price \<Rightarrow> pairs_with_price option" where
  "replace_price_if_empty local_price u =
     (if price_1_over_0 u = 0 then do { r \<leftarrow> local_price; Some (u\<lparr>price_1_over_0 := r\<rparr>) } else Some u)"

definition apply_one :: "pairs_with_price \<Rightarrow> token_price_generator \<Rightarrow> (b256 \<times> token_price_generator) option" where
  "apply_one u g =
     (if block_num u \<noteq> cur_block g + 1 then None
      else do {
        (k, g1) \<leftarrow> pool_of_update u g;
        q \<leftarrow> map_of (prev_prices g1) k;
        u' \<leftarrow> replace_price_if_empty
               (case map_of (uniswap_pools g1) k of None \<Rightarrow> Some 0 | Some p \<Rightarrow> pool_price p) u;
        let q' = (if price_1_over_0 u' \<noteq> 0 then q @ [u'] else q);
        Some (k, g1\<lparr>prev_prices := AList.update k (trim (blocks_to_avg_price g1) q') (prev_prices g1)\<rparr>) })"

fun apply_each :: "pairs_with_price list \<Rightarrow> token_price_generator \<Rightarrow> (b256 list \<times> token_price_generator) option" where
  "apply_each [] g = Some ([], g)"
| "apply_each (u # us) g =
     do { (k, g1) \<leftarrow> apply_one u g; (ks, g2) \<leftarrow> apply_each us g1; Some (k # ks, g2) }"

text \<open>A pool without an update repeats its last price.\<close>

definition repeat_last :: "u64 \<Rightarrow> u64 \<Rightarrow> pairs_with_price list \<Rightarrow> pairs_with_price list" where
  "repeat_last n block q =
     (if q = [] then [] else trim n (q @ [(last q)\<lparr>block_num := block\<rparr>]))"

definition extend_others :: "b256 list \<Rightarrow> token_price_generator \<Rightarrow> token_price_generator" where
  "extend_others updated g =
     g\<lparr>prev_prices := map (\<lambda>(k, q). (k, if k \<in> set updated then q
                                     else repeat_last (blocks_to_avg_price g) (cur_block g) q))
                       (prev_prices g)\<rparr>"

definition drop_removed :: "token_price_generator \<Rightarrow> token_price_generator" where
  "drop_removed g =
     (let gone = filter (\<lambda>k. k \<notin> fst ` set (uniswap_pools g)) (map fst (prev_prices g))
      in fold (\<lambda>k g. g\<lparr>prev_prices := AList.delete k (prev_prices g),
                       pair_to_pool := filter (\<lambda>(pair, v). v \<noteq> k) (pair_to_pool g)\<rparr>) gone g)"

fun add_missing :: "(b256 \<times> uni_pool) list \<Rightarrow> token_price_generator \<Rightarrow> token_price_generator option" where
  "add_missing [] g = Some g"
| "add_missing ((k, p) # ps) g =
     (if k \<in> fst ` set (prev_prices g) then add_missing ps g
      else do {
        price \<leftarrow> pool_price p;
        let q = [\<lparr>pwp_token0 = up_token0 p, pwp_token1 = up_token1 p, price_1_over_0 = price,
                  block_num = cur_block g\<rparr>];
        add_missing ps (g\<lparr>prev_prices := AList.update k q (prev_prices g),
                         pair_to_pool := AList.update (up_token0 p, up_token1 p) k (pair_to_pool g)\<rparr>) })"

definition apply_update :: "u128 \<Rightarrow> pairs_with_price list \<Rightarrow> token_price_generator \<Rightarrow> token_price_generator option" where
  "apply_update new_gas_wei updates g =
     do { (updated, g1) \<leftarrow> apply_each updates (g\<lparr>base_wei := new_gas_wei\<rparr>);
          let g2 = drop_removed (extend_others updated (g1\<lparr>cur_block := cur_block g1 + 1\<rparr>));
          add_missing (uniswap_pools g2) g2 }"

definition new_pool_update :: "b256 \<Rightarrow> address \<Rightarrow> address \<Rightarrow> pairs_with_price list \<Rightarrow> token_price_generator \<Rightarrow>
    token_price_generator" where
  "new_pool_update k t0 t1 prices g =
     g\<lparr>pair_to_pool := AList.update (t0, t1) k (pair_to_pool g),
       prev_prices := AList.update k prices (prev_prices g)\<rparr>"

section \<open>The price of gas\<close>

text \<open>The division panics on an empty queue.\<close>

definition average_price :: "(pairs_with_price \<Rightarrow> ray option) \<Rightarrow> pairs_with_price list \<Rightarrow> ray option" where
  "average_price f q =
     do { rs \<leftarrow> those (map f q); ray_div_u256 (ray_sum rs) (of_nat (length q)) }"

definition gas_wei :: "token_price_generator \<Rightarrow> u128" where
  "gas_wei g = (if base_wei g = 0 then 10 ^ 18 else base_wei g)"

text \<open>
  The outer option is a panic. A pair that contains the gas token is priced by itself. For another one, the
  first token may have a pool with the gas token, or the second, which needs the price of the pair as well; a
  flip says that the gas token is the second one of that pool.
\<close>

definition conversion_hop :: "token_price_generator \<Rightarrow> address \<Rightarrow> bool \<times> address \<times> address" where
  "conversion_hop g t =
     (if t < base_gas_token g then (True, t, base_gas_token g) else (False, base_gas_token g, t))"

definition hop_price :: "bool \<Rightarrow> pairs_with_price \<Rightarrow> ray option" where
  "hop_price flip p = (if flip then Some (price_1_over_0 p) else inv_ray (price_1_over_0 p))"

definition get_eth_conversion_price :: "token_price_generator \<Rightarrow> address \<Rightarrow> address \<Rightarrow> ray option option" where
  "get_eth_conversion_price g t0 t1 =
     (let wei = unat (gas_wei g); prices = map_of (prev_prices g); pools = map_of (pair_to_pool g)
      in if t0 = base_gas_token g then
           do { one \<leftarrow> scale_to_ray 1; r \<leftarrow> mul_wad one wei 18; Some (Some r) }
         else if t1 = base_gas_token g then
           (case Option.bind (pools (t0, t1)) prices of
              None \<Rightarrow> Some None
            | Some q \<Rightarrow> do { a \<leftarrow> average_price (\<lambda>p. Some (price_1_over_0 p)) q; r \<leftarrow> mul_wad a wei 18; Some (Some r) })
         else
           let (flip1, a1, b1) = conversion_hop g t0; (flip2, a2, b2) = conversion_hop g t1
           in case pools (a1, b1) of
                Some k \<Rightarrow>
                  (case prices k of
                     None \<Rightarrow> Some None
                   | Some q \<Rightarrow> do { a \<leftarrow> average_price (hop_price flip1) q; r \<leftarrow> mul_wad a wei 18; Some (Some r) })
              | None \<Rightarrow>
                  (case pools (a2, b2) of
                     None \<Rightarrow> Some None
                   | Some k2 \<Rightarrow>
                       (case pools (t0, t1) of
                          None \<Rightarrow> None
                        | Some k \<Rightarrow>
                            (case prices k of
                               None \<Rightarrow> Some None
                             | Some q \<Rightarrow>
                                 do { a \<leftarrow> average_price (\<lambda>p. Some (price_1_over_0 p)) q;
                                      (case prices k2 of
                                         None \<Rightarrow> Some None
                                       | Some q2 \<Rightarrow>
                                           do { b \<leftarrow> average_price (hop_price flip2) q2;
                                                ab \<leftarrow> mul_ray a b; r \<leftarrow> mul_wad ab wei 18; Some (Some r) }) }))))"

text \<open>None is a panic of one of the conversions.\<close>

fun lookup_entries :: "token_price_generator \<Rightarrow> (address \<times> address) list \<Rightarrow> ((address \<times> address) \<times> ray) list option" where
  "lookup_entries g [] = Some []"
| "lookup_entries g ((x, y) # ps) =
     (let (t0, t1) = (if y < x then (y, x) else (x, y))
      in do { r \<leftarrow> get_eth_conversion_price g t0 t1;
              rest \<leftarrow> lookup_entries g ps;
              Some (case r of None \<Rightarrow> rest | Some price \<Rightarrow> ((t0, t1), price) # rest) })"

definition generate_lookup_map :: "token_price_generator \<Rightarrow> ((address \<times> address) \<times> ray) list option" where
  "generate_lookup_map g =
     do { es \<leftarrow> lookup_entries g (map fst (pair_to_pool g));
          Some (fold (\<lambda>(k, v). AList.update k v) es []) }"

section \<open>The window of prices\<close>

text \<open>Every queue has a price and is no longer than the window; the pool of a pair has a queue.\<close>

definition window_ok :: "u64 \<Rightarrow> pairs_with_price list \<Rightarrow> bool" where
  "window_ok n q \<longleftrightarrow> q \<noteq> [] \<and> length q \<le> unat n"

definition priced :: "token_price_generator \<Rightarrow> bool" where
  "priced g \<longleftrightarrow>
     list_all (\<lambda>(k, q). window_ok (blocks_to_avg_price g) q) (prev_prices g) \<and>
     snd ` set (pair_to_pool g) \<subseteq> fst ` set (prev_prices g)"

definition has_price :: "uni_pool \<Rightarrow> bool" where
  "has_price p \<longleftrightarrow> (case pool_price p of None \<Rightarrow> False | Some r \<Rightarrow> r \<noteq> 0)"

lemma length_trim:
  assumes "unat n + 1 < 2 ^ 64" "length q \<le> unat n + 1"
  shows "length (trim n q) \<le> unat n"
proof -
  have "unat (n + 1) = unat n + 1" using assms(1) by (simp add: unat_plus_if_size word_size)
  moreover have "unat (of_nat (length q) :: u64) = length q"
    using assms by (intro unat_of_nat_fits) simp
  ultimately have "(of_nat (length q) = n + 1) = (length q = unat n + 1)" by (metis word_unat_eq_iff)
  then show ?thesis using assms(2) by (auto simp: trim_def)
qed

lemma trim_nonempty: "0 < n \<Longrightarrow> unat n + 1 < 2 ^ 64 \<Longrightarrow> q \<noteq> [] \<Longrightarrow> trim n q \<noteq> []"
proof
  assume "0 < n" "unat n + 1 < 2 ^ 64" "q \<noteq> []" "trim n q = []"
  then have "of_nat (length q) = n + 1" "length q = 1" by (auto simp: trim_def split: if_splits) (cases q; simp)
  then have "n = 0" by simp
  with \<open>0 < n\<close> show False by simp
qed

lemma window_ok_push:
  assumes "0 < n" "unat n + 1 < 2 ^ 64" "length q \<le> unat n"
  shows "window_ok n (trim n (q @ [x]))"
  using length_trim [OF assms(2)] trim_nonempty [OF assms(1,2)] assms(3) by (simp add: window_ok_def)

lemma window_ok_repeat:
  assumes "0 < n" "unat n + 1 < 2 ^ 64" "window_ok n q"
  shows "window_ok n (repeat_last n b q)"
  using assms window_ok_push [OF assms(1,2)] by (simp add: window_ok_def repeat_last_def)

lemma window_ok_trim:
  assumes "0 < n" "unat n + 1 < 2 ^ 64" "window_ok n q"
  shows "window_ok n (trim n q)"
  using assms length_trim [OF assms(2)] trim_nonempty [OF assms(1,2)] by (simp add: window_ok_def)

lemmas window_ok_steps = window_ok_push window_ok_repeat window_ok_trim

lemma set_update_elem: "e \<in> set (AList.update k v xs) \<Longrightarrow> e = (k, v) \<or> e \<in> set xs"
  by (induction xs) (auto split: if_splits)

lemma priced_update:
  assumes "priced g" "window_ok (blocks_to_avg_price g) q"
  shows "priced (g\<lparr>prev_prices := AList.update k q (prev_prices g)\<rparr>)"
  using assms unfolding priced_def list_all_iff
  by (auto simp: dom_update dest!: set_update_elem)

lemma replaced_price:
  "replace_price_if_empty l u = Some u' \<Longrightarrow> (\<And>r. l = Some r \<Longrightarrow> r \<noteq> 0) \<Longrightarrow> price_1_over_0 u' \<noteq> 0"
  by (auto simp: replace_price_if_empty_def bind_eq_Some_conv split: if_splits)

text \<open>What an update leaves alone.\<close>

definition same_setup :: "token_price_generator \<Rightarrow> token_price_generator \<Rightarrow> bool" where
  "same_setup g g' \<longleftrightarrow> uniswap_pools g' = uniswap_pools g \<and> blocks_to_avg_price g' = blocks_to_avg_price g \<and>
     cur_block g' = cur_block g"

lemma same_setup_trans: "same_setup g h \<Longrightarrow> same_setup h i \<Longrightarrow> same_setup g i"
  by (simp add: same_setup_def)

text \<open>The window is not empty, and the pools that the generator reads have a price.\<close>

definition sourced :: "token_price_generator \<Rightarrow> bool" where
  "sourced g \<longleftrightarrow> 0 < blocks_to_avg_price g \<and> unat (blocks_to_avg_price g) + 1 < 2 ^ 64 \<and>
     list_all (\<lambda>(k, p). has_price p) (uniswap_pools g)"

lemma sourcedD:
  assumes "sourced g"
  shows "0 < blocks_to_avg_price g" "unat (blocks_to_avg_price g) + 1 < 2 ^ 64"
    "map_of (uniswap_pools g) k = Some p \<Longrightarrow> has_price p"
  using assms unfolding sourced_def list_all_iff by (auto dest: map_of_SomeD)

lemma same_setup_sourced: "same_setup g g' \<Longrightarrow> sourced g \<Longrightarrow> sourced g'"
  by (simp add: same_setup_def sourced_def)

lemma find_in_set: "find P xs = Some x \<Longrightarrow> x \<in> set xs"
  by (induction xs) (auto split: if_splits)

lemma pool_of_update_cases:
  assumes "pool_of_update u g = Some (k, g1)"
  obtains "g1 = g" "map_of (pair_to_pool g) (pwp_token0 u, pwp_token1 u) = Some k"
  | "k \<in> fst ` set (uniswap_pools g)"
    "g1 = g\<lparr>pair_to_pool := AList.update (pwp_token0 u, pwp_token1 u) k (pair_to_pool g),
             prev_prices := AList.update k [] (prev_prices g)\<rparr>"
proof (cases "map_of (pair_to_pool g) (pwp_token0 u, pwp_token1 u)")
  case None
  with assms obtain p where p: "find (\<lambda>(k, p). up_token0 p = pwp_token0 u \<and> up_token1 p = pwp_token1 u)
      (uniswap_pools g) = Some (k, p)"
    and g1: "g1 = g\<lparr>pair_to_pool := AList.update (pwp_token0 u, pwp_token1 u) k (pair_to_pool g),
             prev_prices := AList.update k [] (prev_prices g)\<rparr>"
    by (auto simp: pool_of_update_def split: option.splits)
  have "k \<in> fst ` set (uniswap_pools g)" using imageI [OF find_in_set [OF p], of fst] by simp
  then show thesis using that(2) g1 by blast
next
  case (Some k')
  with assms that(1) show thesis by (simp add: pool_of_update_def)
qed

lemma pushed_ok:
  assumes "sourced g" "length q \<le> unat (blocks_to_avg_price g)" "price_1_over_0 u' = 0 \<Longrightarrow> q \<noteq> []"
  shows "window_ok (blocks_to_avg_price g)
           (trim (blocks_to_avg_price g) (if price_1_over_0 u' \<noteq> 0 then q @ [u'] else q))"
  using assms window_ok_steps [OF sourcedD(1,2) [OF assms(1)]] by (simp add: window_ok_def)

lemma apply_one_ok:
  assumes "apply_one u g = Some (k, g')" "sourced g" "priced g"
  shows "priced g' \<and> same_setup g g'"
proof -
  obtain g1 q u' where g1: "pool_of_update u g = Some (k, g1)" and q: "map_of (prev_prices g1) k = Some q"
    and u': "replace_price_if_empty
               (case map_of (uniswap_pools g1) k of None \<Rightarrow> Some 0 | Some p \<Rightarrow> pool_price p) u = Some u'"
    and g': "g' = g1\<lparr>prev_prices := AList.update k (trim (blocks_to_avg_price g1)
                (if price_1_over_0 u' \<noteq> 0 then q @ [u'] else q)) (prev_prices g1)\<rparr>"
    using assms(1) by (auto simp: apply_one_def bind_eq_Some_conv Let_def split: if_splits)
  from g1 show ?thesis
  proof (cases rule: pool_of_update_cases)
    case 1
    have "(k, q) \<in> set (prev_prices g)" using q 1(1) by (auto dest: map_of_SomeD)
    then have "window_ok (blocks_to_avg_price g) q" using assms(3) by (auto simp: priced_def list_all_iff)
    then have "window_ok (blocks_to_avg_price g) (trim (blocks_to_avg_price g)
                (if price_1_over_0 u' \<noteq> 0 then q @ [u'] else q))"
      by (intro pushed_ok assms(2)) (simp_all add: window_ok_def)
    from priced_update [OF assms(3) this] show ?thesis unfolding g' 1(1) by (simp add: same_setup_def)
  next
    case 2
    have empty: "q = []" using q unfolding 2(2) by (simp add: update_conv')
    obtain p where p: "map_of (uniswap_pools g) k = Some p"
      using 2(1) by (metis map_of_eq_None_iff option.exhaust)
    have "price_1_over_0 u' \<noteq> 0"
      using replaced_price [OF u'] sourcedD(3) [OF assms(2) p] p
      unfolding 2(2) by (auto simp: has_price_def split: option.splits)
    then have ok: "window_ok (blocks_to_avg_price g) (trim (blocks_to_avg_price g)
                (if price_1_over_0 u' \<noteq> 0 then q @ [u'] else q))"
      by (intro pushed_ok assms(2)) (simp_all add: empty)
    show ?thesis using assms(3) ok unfolding g' 2(2) priced_def list_all_iff
      by (auto simp: dom_update same_setup_def dest!: set_update_elem)
  qed
qed

lemma apply_each_ok:
  "apply_each us g = Some (ks, g') \<Longrightarrow> sourced g \<Longrightarrow> priced g \<Longrightarrow> priced g' \<and> same_setup g g'"
proof (induction us arbitrary: g ks)
  case Nil
  then show ?case by (simp add: same_setup_def)
next
  case (Cons u us)
  from Cons.prems(1) obtain k g1 ks' where "apply_one u g = Some (k, g1)" "apply_each us g1 = Some (ks', g')"
    by (auto simp: bind_eq_Some_conv)
  with Cons show ?case by (blast dest: apply_one_ok same_setup_sourced intro: same_setup_trans)
qed

lemma extend_others_ok:
  assumes "sourced g" "priced g"
  shows "priced (extend_others ks g) \<and> same_setup g (extend_others ks g)"
  using assms(2) window_ok_repeat [OF sourcedD(1,2) [OF assms(1)]]
  by (auto simp: extend_others_def priced_def same_setup_def list_all_iff image_image split_def)

lemma delete_filter: "AList.delete k xs = filter (\<lambda>e. fst e \<noteq> k) xs"
  by (auto simp: AList.delete_eq split_def intro: filter_cong)

lemma drop_keys:
  "fold (\<lambda>k g. g\<lparr>prev_prices := AList.delete k (prev_prices g),
                pair_to_pool := filter (\<lambda>(pair, v). v \<noteq> k) (pair_to_pool g)\<rparr>) ks g =
   g\<lparr>prev_prices := filter (\<lambda>(k, q). k \<notin> set ks) (prev_prices g),
     pair_to_pool := filter (\<lambda>(pair, v). v \<notin> set ks) (pair_to_pool g)\<rparr>"
proof (induction ks arbitrary: g)
  case (Cons k ks)
  then show ?case by (simp add: delete_filter split_def)
qed simp

lemma drop_removed_ok:
  assumes "priced g"
  shows "priced (drop_removed g)" "same_setup g (drop_removed g)"
    "fst ` set (prev_prices (drop_removed g)) \<subseteq> fst ` set (uniswap_pools g)"
proof -
  define U where "U = fst ` set (uniswap_pools g)"
  define K where "K = set (filter (\<lambda>k. k \<notin> U) (map fst (prev_prices g)))"
  have d: "drop_removed g = g\<lparr>prev_prices := filter (\<lambda>(k, q). k \<notin> K) (prev_prices g),
     pair_to_pool := filter (\<lambda>(pair, v). v \<notin> K) (pair_to_pool g)\<rparr>"
    unfolding drop_removed_def Let_def K_def U_def by (rule drop_keys)
  have key: "k \<in> U" if "(k, q) \<in> set (prev_prices g)" "k \<notin> K" for k q
    using that(2) imageI [OF that(1), of fst] by (simp add: K_def)
  show "same_setup g (drop_removed g)" unfolding d by (simp add: same_setup_def)
  show "fst ` set (prev_prices (drop_removed g)) \<subseteq> fst ` set (uniswap_pools g)"
    unfolding d U_def [symmetric] by (auto dest: key)
  have "v \<in> fst ` set (prev_prices (drop_removed g))"
    if "v \<in> snd ` set (pair_to_pool (drop_removed g))" for v
  proof -
    from that have v: "v \<in> snd ` set (pair_to_pool g)" "v \<notin> K" unfolding d by auto
    then obtain q where "(v, q) \<in> set (prev_prices g)" using assms unfolding priced_def by auto
    then have "(v, q) \<in> set (prev_prices (drop_removed g))" using v(2) unfolding d by simp
    from imageI [OF this, of fst] show ?thesis by simp
  qed
  moreover have "list_all (\<lambda>(k, q). window_ok (blocks_to_avg_price (drop_removed g)) q) (prev_prices (drop_removed g))"
    using assms unfolding d priced_def list_all_iff by auto
  ultimately show "priced (drop_removed g)" unfolding priced_def by (simp add: subset_iff)
qed

lemma add_missing_ok:
  assumes "add_missing ps g = Some g'" "sourced g" "priced g"
  shows "priced g' \<and> same_setup g g' \<and>
         fst ` set (prev_prices g') = fst ` set (prev_prices g) \<union> fst ` set ps"
  using assms
proof (induction ps g rule: add_missing.induct)
  case (1 g)
  then show ?case by (simp add: same_setup_def)
next
  case (2 k p ps g)
  show ?case
  proof (cases "k \<in> fst ` set (prev_prices g)")
    case True
    with 2 show ?thesis by auto
  next
    case False
    with 2(3) obtain price where price: "pool_price p = Some price" by (auto simp: bind_eq_Some_conv)
    let ?q = "[\<lparr>pwp_token0 = up_token0 p, pwp_token1 = up_token1 p, price_1_over_0 = price, block_num = cur_block g\<rparr>]"
    let ?g = "g\<lparr>prev_prices := AList.update k ?q (prev_prices g),
                pair_to_pool := AList.update (up_token0 p, up_token1 p) k (pair_to_pool g)\<rparr>"
    have "window_ok (blocks_to_avg_price g) ?q"
      using sourcedD(1) [OF 2(4)] by (simp add: window_ok_def word_less_nat_alt Suc_le_eq)
    then have ok: "priced ?g" using 2(5) unfolding priced_def list_all_iff
      by (auto simp: dom_update dest!: set_update_elem)
    have same: "same_setup g ?g" by (simp add: same_setup_def)
    have rec: "add_missing ps ?g = Some g'" using 2(3) False price by simp
    have "priced g' \<and> same_setup ?g g' \<and> fst ` set (prev_prices g') = fst ` set (prev_prices ?g) \<union> fst ` set ps"
      by (rule 2(2) [OF False price refl rec same_setup_sourced [OF same 2(4)] ok])
    then show ?thesis using same_setup_trans [OF same] by (auto simp: dom_update)
  qed
qed

lemma apply_update_ok:
  assumes "apply_update w us g = Some g'" "sourced g" "priced g"
  shows "priced g'" "sourced g'" "cur_block g' = cur_block g + 1"
    "fst ` set (prev_prices g') = fst ` set (uniswap_pools g')"
proof -
  obtain ks g1 where g1: "apply_each us (g\<lparr>base_wei := w\<rparr>) = Some (ks, g1)"
    and g': "add_missing (uniswap_pools (drop_removed (extend_others ks (g1\<lparr>cur_block := cur_block g1 + 1\<rparr>))))
               (drop_removed (extend_others ks (g1\<lparr>cur_block := cur_block g1 + 1\<rparr>))) = Some g'"
    using assms(1) by (auto simp: apply_update_def bind_eq_Some_conv Let_def)
  let ?g1 = "g1\<lparr>cur_block := cur_block g1 + 1\<rparr>" let ?g2 = "drop_removed (extend_others ks ?g1)"
  have 1: "priced g1" "same_setup (g\<lparr>base_wei := w\<rparr>) g1"
    using apply_each_ok [OF g1] assms(2,3) by (simp_all add: sourced_def priced_def)
  then have 2: "priced ?g1" "sourced ?g1" using assms(2) by (simp_all add: priced_def sourced_def same_setup_def)
  note e = extend_others_ok [OF 2(2,1), of ks]
  note d = drop_removed_ok [OF conjunct1 [OF e]]
  have same: "same_setup ?g1 ?g2" by (rule same_setup_trans [OF conjunct2 [OF e] d(2)])
  note m = add_missing_ok [OF g' same_setup_sourced [OF same 2(2)] d(1)]
  have "same_setup ?g1 g'" using m same same_setup_trans by blast
  then show "priced g'" "sourced g'" "cur_block g' = cur_block g + 1"
    using m 1(2) same_setup_sourced [OF _ 2(2)] by (simp_all add: same_setup_def)
  show "fst ` set (prev_prices g') = fst ` set (uniswap_pools g')"
    using m d(3) e d(2) by (auto simp: same_setup_def)
qed

lemma load_prices_length: "load_prices load k bs = Some q \<Longrightarrow> length q = length bs"
  by (induction bs arbitrary: q) (auto simp: bind_eq_Some_conv)

lemma load_pools_keys: "load_pools load bs ps = Some qs \<Longrightarrow> map fst qs = map fst ps"
  by (induction load bs ps arbitrary: qs rule: load_pools.induct) (auto simp: bind_eq_Some_conv)

lemma load_pools_length:
  "load_pools load bs ps = Some qs \<Longrightarrow> (k, q) \<in> set qs \<Longrightarrow> length q = length bs"
  by (induction load bs ps arbitrary: qs rule: load_pools.induct)
     (auto simp: bind_eq_Some_conv dest: load_prices_length)

lemma pair_values:
  "snd ` set (fold (\<lambda>(k, p). AList.update (f p) k) ps xs) \<subseteq> snd ` set xs \<union> fst ` set ps"
proof (induction ps arbitrary: xs)
  case (Cons e ps)
  have "snd ` set (AList.update (f (snd e)) (fst e) xs) \<subseteq> insert (fst e) (snd ` set xs)"
    using set_update_elem by fastforce
  with Cons.IH [of "AList.update (f (snd e)) (fst e) xs"] show ?case by (auto simp: split_def)
qed simp

lemma generator_new_ok:
  assumes "generator_new load w cur uni gas ov = Some g" "sourced g" "0 < cur"
  shows "priced g"
proof -
  let ?bs = "map of_nat [unat (saturating_sub cur (blocks_to_avg_price g))..<unat cur] :: u64 list"
  have g: "load_pools load ?bs uni = Some (prev_prices g)"
    "pair_to_pool g = fold (\<lambda>(k, p). AList.update (up_token0 p, up_token1 p) k) uni []"
    using assms(1) by (auto simp: generator_new_def Let_def bind_eq_Some_conv)
  have "0 < unat (blocks_to_avg_price g)" "0 < unat cur"
    using sourcedD(1) [OF assms(2)] assms(3) by (simp_all add: word_less_nat_alt)
  then have "0 < length ?bs" "length ?bs \<le> unat (blocks_to_avg_price g)"
    by (simp_all add: unat_saturating_sub)
  then have "list_all (\<lambda>(k, q). window_ok (blocks_to_avg_price g) q) (prev_prices g)"
    using load_pools_length [OF g(1)] by (fastforce simp: list_all_iff window_ok_def)
  moreover have "fst ` set (prev_prices g) = fst ` set uni"
    using arg_cong [OF load_pools_keys [OF g(1)], of set] by simp
  ultimately show ?thesis
    using pair_values [of "\<lambda>p. (up_token0 p, up_token1 p)" uni "[]"] g(2) by (simp add: priced_def)
qed

text \<open>A generator that is loaded, sees the pools change, and takes updates.\<close>

inductive generator_run :: "pool_history \<Rightarrow> token_price_generator \<Rightarrow> bool" for load where
  gen_start: "generator_new load w cur uni gas ov = Some g \<Longrightarrow> 0 < cur \<Longrightarrow> sourced g \<Longrightarrow> generator_run load g"
| gen_pools: "generator_run load g \<Longrightarrow> sourced (g\<lparr>uniswap_pools := uni\<rparr>) \<Longrightarrow>
    generator_run load (g\<lparr>uniswap_pools := uni\<rparr>)"
| gen_update: "generator_run load g \<Longrightarrow> apply_update w us g = Some g' \<Longrightarrow> generator_run load g'"

lemma generator_run_ok: "generator_run load g \<Longrightarrow> sourced g \<and> priced g"
proof (induction rule: generator_run.induct)
  case (gen_pools g uni)
  then show ?case by (simp add: priced_def)
qed (auto dest: generator_new_ok apply_update_ok)

lemma those_Some: "those (map (\<lambda>x. Some (f x)) xs) = Some (map f xs)"
  by (induction xs) simp_all

lemma of_nat_length_nonzero: "1 \<le> n \<Longrightarrow> n < 2 ^ 256 \<Longrightarrow> of_nat n \<noteq> (0 :: u256)"
proof
  assume "1 \<le> n" "n < 2 ^ 256" "of_nat n = (0 :: u256)"
  moreover from this have "unat (of_nat n :: u256) = n" by (intro unat_of_nat_fits) simp
  ultimately show False by simp
qed

lemma average_price_eq:
  "q \<noteq> [] \<Longrightarrow> length q < 2 ^ 256 \<Longrightarrow>
   average_price (\<lambda>p. Some (f p)) q = Some (ray_sum (map f q) div of_nat (length q))"
  using of_nat_length_nonzero [of "length q"]
  by (simp add: average_price_def those_Some ray_div_u256_def Suc_le_eq)

text \<open>
  C0. While the pools have a price, a generator that is loaded and then takes its updates has,
  after each update, a queue for exactly the pools there are. No queue is empty or longer than the window,
  so the average over it is defined, and the pool of every known pair has a queue.
\<close>
theorem prices_in_window:
  assumes "generator_run load g" "apply_update w us g = Some g'"
  shows "fst ` set (prev_prices g') = fst ` set (uniswap_pools g') \<and>
         (\<forall>(k, q)\<in>set (prev_prices g').
            1 \<le> length q \<and> length q \<le> unat (blocks_to_avg_price g') \<and>
            average_price (\<lambda>p. Some (price_1_over_0 p)) q \<noteq> None) \<and>
         (\<forall>pair k. map_of (pair_to_pool g') pair = Some k \<longrightarrow> map_of (prev_prices g') k \<noteq> None)"
proof -
  have ok: "sourced g" "priced g" using generator_run_ok [OF assms(1)] by simp_all
  note u = apply_update_ok [OF assms(2) ok]
  have "1 \<le> length q \<and> length q \<le> unat (blocks_to_avg_price g') \<and>
      average_price (\<lambda>p. Some (price_1_over_0 p)) q \<noteq> None" if "(k, q) \<in> set (prev_prices g')" for k q
  proof -
    have q: "q \<noteq> []" "length q \<le> unat (blocks_to_avg_price g')"
      using u(1) that by (auto simp: priced_def list_all_iff window_ok_def)
    moreover have "length q < 2 ^ 256" using q(2) sourcedD(2) [OF u(2)] by simp
    ultimately show ?thesis by (simp add: average_price_eq Suc_le_eq)
  qed
  moreover have "map_of (prev_prices g') k \<noteq> None" if "map_of (pair_to_pool g') pair = Some k" for pair k
    using u(1) imageI [OF map_of_SomeD [OF that], of snd] by (auto simp: priced_def map_of_eq_None_iff)
  ultimately show ?thesis using u(4) by blast
qed

lemma unat_ray_fold:
  "unat a + sum_list (map unat rs) < 2 ^ 256 \<Longrightarrow>
   unat (foldl (+) (a :: u256) rs) = unat a + sum_list (map unat rs)"
proof (induction rs arbitrary: a)
  case (Cons r rs)
  then have "unat (a + r) = unat a + unat r" by (simp add: unat_plus_if_size word_size)
  with Cons.IH [of "a + r"] Cons.prems show ?case by simp
qed simp

lemma average_bounds:
  assumes "q \<noteq> []" "\<forall>p\<in>set q. lo \<le> unat (f p) \<and> unat (f p) \<le> hi" "length q * hi < 2 ^ 256" "length q < 2 ^ 256"
  shows "lo \<le> unat (ray_sum (map f q) div of_nat (length q))"
    "unat (ray_sum (map f q) div of_nat (length q)) \<le> hi"
proof -
  let ?s = "sum_list (map (\<lambda>p. unat (f p)) q)"
  have s: "length q * lo \<le> ?s" "?s \<le> length q * hi"
    using assms(2) by (induction q) auto
  then have "unat (ray_sum (map f q)) = ?s"
    using unat_ray_fold [of 0 "map f q"] assms(3) by (simp add: ray_sum_def comp_def)
  moreover have "unat (of_nat (length q) :: u256) = length q" using assms(4) by (intro unat_of_nat_fits) simp
  ultimately have d: "unat (ray_sum (map f q) div of_nat (length q)) = ?s div length q" by (simp add: unat_div)
  have l: "0 < length q" using assms(1) by simp
  show "lo \<le> unat (ray_sum (map f q) div of_nat (length q))"
    unfolding d using s(1) l by (simp add: less_eq_div_iff_mult_less_eq mult.commute)
  show "unat (ray_sum (map f q) div of_nat (length q)) \<le> hi"
    unfolding d using div_le_mono [OF s(2), of "length q"] l by simp
qed

text \<open>
  C0. For a pool with the gas token the price of gas is the average of its queue, scaled by
  the current gas price: if all prices of the queue lie between two bounds, the result lies between the bounds scaled by the
  gas price (or by one coin if there is none), and there is no panic unless a bound leaves 256 bits.
\<close>
theorem gas_price_is_average:
  assumes "t0 \<noteq> base_gas_token g" "map_of (pair_to_pool g) (t0, base_gas_token g) = Some k"
  and "map_of (prev_prices g) k = Some q" "q \<noteq> []" "length q < 2 ^ 64"
  and "\<forall>p\<in>set q. lo \<le> unat (price_1_over_0 p) \<and> unat (price_1_over_0 p) \<le> hi"
  and "length q * hi < 2 ^ 256" "hi * unat (gas_wei g) div 10 ^ 18 < 2 ^ 256"
  shows "\<exists>r. get_eth_conversion_price g t0 (base_gas_token g) = Some (Some r) \<and>
             lo * unat (gas_wei g) div 10 ^ 18 \<le> unat r \<and> unat r \<le> hi * unat (gas_wei g) div 10 ^ 18"
proof -
  let ?a = "ray_sum (map price_1_over_0 q) div of_nat (length q)"
  have len: "length q < 2 ^ 256" using assms(5) by simp
  note b = average_bounds [OF assms(4,6,7) len]
  let ?n = "unat ?a * unat (gas_wei g) div 10 ^ 18"
  have n: "lo * unat (gas_wei g) div 10 ^ 18 \<le> ?n" "?n \<le> hi * unat (gas_wei g) div 10 ^ 18"
    using b by (intro div_le_mono mult_le_mono1; simp)+
  then have "mul_wad ?a (unat (gas_wei g)) 18 = Some (of_nat ?n)" and fit: "?n < 2 ^ 256"
    using assms(8) by (simp_all add: mul_wad_def div_round_def from_limbs_slice_def)
  then have "get_eth_conversion_price g t0 (base_gas_token g) = Some (Some (of_nat ?n))"
    using assms(1-4) len by (simp add: get_eth_conversion_price_def average_price_eq Let_def)
  moreover have "unat (of_nat ?n :: u256) = ?n" using fit by (intro unat_of_nat_fits) simp
  ultimately show ?thesis using n by auto
qed

section \<open>One update for each block\<close>

lemma apply_one_block: "apply_one u g = Some (k, g') \<Longrightarrow> cur_block g' = cur_block g \<and> block_num u = cur_block g + 1"
  by (auto simp: apply_one_def bind_eq_Some_conv Let_def elim!: pool_of_update_cases split: if_splits)

lemma apply_each_block: "apply_each us g = Some (ks, g') \<Longrightarrow> cur_block g' = cur_block g"
  by (induction us arbitrary: g ks) (auto simp: bind_eq_Some_conv dest!: apply_one_block)

lemma add_missing_block: "add_missing ps g = Some g' \<Longrightarrow> cur_block g' = cur_block g"
  by (induction ps g rule: add_missing.induct) (auto simp: bind_eq_Some_conv Let_def split: if_splits)

lemma apply_update_block:
  assumes "apply_update w us g = Some g'"
  shows "cur_block g' = cur_block g + 1" "u \<in> set us \<Longrightarrow> block_num u = cur_block g + 1"
proof -
  show "cur_block g' = cur_block g + 1"
    using assms by (auto simp: apply_update_def bind_eq_Some_conv Let_def extend_others_def drop_removed_def drop_keys
        dest!: apply_each_block add_missing_block)
  have "apply_each us h = Some (ks, h') \<Longrightarrow> u \<in> set us \<Longrightarrow> block_num u = cur_block h + 1" for h h' ks
    by (induction us arbitrary: h ks) (auto simp: bind_eq_Some_conv dest!: apply_one_block)
  then show "u \<in> set us \<Longrightarrow> block_num u = cur_block g + 1"
    using assms by (fastforce simp: apply_update_def bind_eq_Some_conv)
qed

lemma bundle_block: "from_angstrom_bundle b assets ps = Some us \<Longrightarrow> u \<in> set us \<Longrightarrow> block_num u = b"
  by (induction b assets ps arbitrary: us rule: from_angstrom_bundle.induct)
     (auto simp: bind_eq_Some_conv split: if_splits)

lemma price_update_block: "price_update env a note = Some us \<Longrightarrow> u \<in> set us \<Longrightarrow> block_num u = tip_number (new_chain note)"
  by (auto simp: price_update_def bind_eq_Some_conv dest: bundle_block split: option.splits)

text \<open>
  C0. The generator counts one block for each notification and panics when the settled prices are of
  another one: after a notification with prices, the next notification that has prices right away
  must have a tip exactly one higher. A reorg to a block of the same height, or a commit of two blocks at
  once, ends the price updates.
\<close>
theorem reorg_ends_pricing:
  assumes "price_update env a note = Some us" "us \<noteq> []" "apply_update w us g = Some g'"
  and "price_update env a note' = Some us'" "us' \<noteq> []"
  and "tip_number (new_chain note') \<noteq> tip_number (new_chain note) + 1"
  shows "apply_update w' us' g' = None"
proof (rule ccontr)
  assume "apply_update w' us' g' \<noteq> None"
  then obtain g2 where g2: "apply_update w' us' g' = Some g2" by blast
  have "tip_number (new_chain note) = cur_block g'"
    using apply_update_block(1) [OF assms(3)] apply_update_block(2) [OF assms(3), of "hd us"] price_update_block [OF assms(1), of "hd us"] assms(2) by simp
  moreover have "tip_number (new_chain note') = cur_block g' + 1"
    using apply_update_block(2) [OF g2, of "hd us'"] price_update_block [OF assms(4), of "hd us'"] assms(5) by simp
  ultimately show False using assms(6) by simp
qed

section \<open>Samples\<close>

definition sample_pool :: uni_pool where
  "sample_pool = \<lparr>up_token0 = 2, up_token1 = 9, up_sqrt_price = 79228162514264337593543950336\<rparr>"

definition sample_price :: "u64 \<Rightarrow> pairs_with_price" where
  "sample_price b = \<lparr>pwp_token0 = 2, pwp_token1 = 9, price_1_over_0 = 1000000000000000000000000000, block_num = b\<rparr>"

definition sample_generator :: "u64 list \<Rightarrow> u64 \<Rightarrow> token_price_generator" where
  "sample_generator bs b =
     \<lparr>uniswap_pools = [(7, sample_pool)], prev_prices = [(7, map sample_price bs)],
      pair_to_pool = [((2, 9), 7)], base_gas_token = 9, cur_block = b, blocks_to_avg_price = 2,
      base_wei = 2000000000\<rparr>"

definition sample_history :: pool_history where
  "sample_history k b = Some (2, 9, 79228162514264337593543950336)"

lemma sample_sqrt: "ray_from_sqrt 79228162514264337593543950336 = Some 1000000000000000000000000000"
  by (simp add: ray_from_sqrt_def convert_sqrtpricex96_def as_price_x192_def div_round_def up_or_down_def
      from_limbs_slice_def ray_consts)

lemma sample_pool_price: "pool_price sample_pool = Some 1000000000000000000000000000"
  using sample_sqrt by (simp add: pool_price_def sample_pool_def from_limbs_slice_def)

lemma sample_sourced: "sourced (sample_generator bs b)"
  by (simp add: sourced_def sample_generator_def has_price_def sample_pool_price)

lemma sample_new: "generator_new sample_history 2000000000 5 [(7, sample_pool)] 9 (Some 2) = Some (sample_generator [3, 4] 5)"
proof -
  have r: "[unat (saturating_sub (5 :: u64) 2)..<unat (5 :: u64)] = [3, 4]"
    by (simp add: saturating_sub_def upt_rec)
  show ?thesis unfolding generator_new_def option.case Let_def r
    by (simp add: sample_history_def sample_sqrt sample_generator_def sample_pool_def sample_price_def)
qed

lemma sample_update: "apply_update 2000000000 [sample_price 6] (sample_generator [3, 4] 5) = Some (sample_generator [4, 6] 6)"
  by (simp add: apply_update_def apply_one_def pool_of_update_def sample_generator_def sample_price_def
      sample_pool_def replace_price_if_empty_def trim_def extend_others_def drop_removed_def Let_def)

theorem prices_in_window_witness:
  "\<exists>g'. apply_update 2000000000 [sample_price 6] (sample_generator [3, 4] 5) = Some g' \<and>
        fst ` set (prev_prices g') = {7}"
proof -
  have "generator_run sample_history (sample_generator [3, 4] 5)"
    by (rule gen_start [OF sample_new _ sample_sourced]) simp
  from prices_in_window [OF this sample_update]
  have "fst ` set (prev_prices (sample_generator [4, 6] 6)) = {7}" by (simp add: sample_generator_def)
  then show ?thesis using sample_update by blast
qed

theorem gas_price_is_average_witness:
  "\<exists>r. get_eth_conversion_price (sample_generator [3, 4] 5) 2 9 = Some (Some r) \<and> unat r = 2000000000000000000"
proof -
  have "\<exists>r. get_eth_conversion_price (sample_generator [3, 4] 5) 2 (base_gas_token (sample_generator [3, 4] 5)) = Some (Some r) \<and>
      1000000000000000000000000000 * unat (gas_wei (sample_generator [3, 4] 5)) div 10 ^ 18 \<le> unat r \<and>
      unat r \<le> 1000000000000000000000000000 * unat (gas_wei (sample_generator [3, 4] 5)) div 10 ^ 18"
    by (rule gas_price_is_average [of _ _ 7 "[sample_price 3, sample_price 4]"])
       (simp_all add: sample_generator_def sample_price_def gas_wei_def)
  moreover have "base_gas_token (sample_generator [3, 4] 5) = 9"
    "1000000000000000000000000000 * unat (gas_wei (sample_generator [3, 4] 5)) div 10 ^ 18 = 2000000000000000000"
    by (simp_all add: sample_generator_def gas_wei_def)
  ultimately show ?thesis by (metis le_antisym)
qed

definition sample_price_env :: price_env where
  "sample_price_env = \<lparr>decode_execute = Some,
     decode_bundle = (\<lambda>_. Some \<lparr>sb_assets = [2, 9], sb_pairs = [(0, 1, 1000000000000000000000000000)]\<rparr>)\<rparr>"

definition sample_tip :: "u64 \<Rightarrow> chain" where
  "sample_tip b = \<lparr>tip_number = b, tip_logs = None, tip_transactions = [\<lparr>tx_to = Some 3, tx_input = []\<rparr>],
     chain_blocks = []\<rparr>"

lemma sample_price_update: "new_chain note = sample_tip b \<Longrightarrow> price_update sample_price_env 3 note = Some [sample_price b]"
  by (simp add: price_update_def sample_price_env_def sample_tip_def sample_price_def)

theorem reorg_ends_pricing_witness:
  "apply_update 2000000000 [sample_price 6] (sample_generator [4, 6] 6) = None \<and>
   price_update sample_price_env 3 (Reorg (sample_tip 6) (sample_tip 6)) = Some [sample_price 6]"
proof
  show "apply_update 2000000000 [sample_price 6] (sample_generator [4, 6] 6) = None"
    by (rule reorg_ends_pricing [OF sample_price_update [of "Commit (sample_tip 6)" 6] _ sample_update
          sample_price_update [of "Reorg (sample_tip 6) (sample_tip 6)" 6]]) (simp_all add: sample_tip_def)
  show "price_update sample_price_env 3 (Reorg (sample_tip 6) (sample_tip 6)) = Some [sample_price 6]"
    by (rule sample_price_update) simp
qed

end
