(* ===== verification/Spec2Isabelle.thy ===== *)
theory Spec2Isabelle
  imports Block_Sync Leader_Selection Order_Indexer User_Accounts Token_Pricing
begin

text \<open>
  \<^bold>\<open>Verification of the Angstrom node.\<close> The program is the Rust workspace under
  \<^verbatim>\<open>src/angstrom-main/crates\<close>; paths below are relative to it. A node takes signed orders, checks
  them against the users' balances, keeps the valid ones in pools, agrees with the other nodes on
  the orders of a block, matches them at one price per pool and submits a bundle to a contract.

  \<^bold>\<open>Conventions.\<close> Machine integers are words that wrap around, as in a release build, or
  integers with the wrap-around written out. A panic is the value None, an error of a
  \<^verbatim>\<open>Result\<close> is Inl of a sum. Hash maps are association lists; where the code depends on the order of an
  iteration the list is that order. A method on \<^verbatim>\<open>&mut self\<close> is a function that returns the updated record.
  Hashing, signatures, time, the chain and the sizes of values in memory are arguments. A future
  that the runtime polls is a function of the event that the poll observes. Wakers and channels are
  logs of what was sent.

  \<^bold>\<open>Prices.\<close> Theory Ray: prices in units of $10^{-27}$, square root prices and token
  quantities (\<^verbatim>\<open>types/src/sol_bindings/ray.rs\<close>, \<^verbatim>\<open>types/src/matching/\<close>). Theory Matching\_Math:
  fees, the quantities an order trades at a price, the moves of the pool against the debt
  (\<^verbatim>\<open>types/src/matching/math/mod.rs\<close>). Shown: rounding is exact to one unit in the direction the
  code means, no trade beats its price, when the functions panic.

  \<^bold>\<open>Blocks.\<close> Theory Block\_Sync: proposals of new blocks and reorgs that every
  registered module signs off on (\<^verbatim>\<open>types/src/block_sync.rs\<close>). Shown: what all modules handled is the
  common prefix of what each has signed, if they sign in order; two races that break it.
  Theory Leader\_Selection: the weighted round robin (\<^verbatim>\<open>consensus/src/leader_selection.rs\<close>). Shown: the
  result does not depend on the iteration order of the set, the priorities stay bounded, and a validator
  proposes in proportion to its stake.

  \<^bold>\<open>Orders.\<close> Theory Order\_Types: the order structs and what the pool asks of them
  (\<^verbatim>\<open>types/src/sol_bindings/\<close>). Theory Order\_Data: identifiers, status, fills, errors, priorities
  (\<^verbatim>\<open>types/src/orders/\<close>, \<^verbatim>\<open>types/src/primitive/\<close>). Theory Order\_Pools: the limit pools with their pending and
  parked parts, the searcher pool and the finalization pool (\<^verbatim>\<open>order-pool/src/limit\<close>,
  \<^verbatim>\<open>searcher\<close>, \<^verbatim>\<open>finalization_pool.rs\<close>). Theory Order\_Storage: the storage made of them
  (\<^verbatim>\<open>order_storage.rs\<close>). The locale sub\_pool is the interface of each of the pools: what a lookup
  returns after an insertion or a removal; it is interpreted for the pools and for the storage, and
  gives that each refines a map. Theory Order\_Tracker: expiry, cancellation and the subscribers
  (\<^verbatim>\<open>order_tracker.rs\<close>, \<^verbatim>\<open>order_subscribers.rs\<close>). Theory Order\_Indexer: the indexer and its
  validation queue (\<^verbatim>\<open>order_indexer.rs\<close>, \<^verbatim>\<open>validator.rs\<close>). Shown: the queue loses no order across
  a change of block; what a cancellation does.

  \<^bold>\<open>Validation.\<close> Theory User\_Accounts: the pending orders of a user against the
  balances (\<^verbatim>\<open>validation/src/order/state/account/\<close>) and the nonce bitmap
  (\<^verbatim>\<open>db_state_utils/nonces.rs\<close>). Shown: what survives an insertion is covered by the balances, no two
  pending orders share a nonce.

  \<^bold>\<open>Pool configuration.\<close> Theory Pool\_Controller: the controller contract and the part of the
  exchange that it controls, a list of packed entries, one for each pool, and the set of nodes
  (\<^verbatim>\<open>contracts/src/periphery/ControllerV1.sol\<close>, \<^verbatim>\<open>modules/TopLevelAuth.sol\<close>, \<^verbatim>\<open>types/\<close>; a revert is None). Shown: the
  controller's indices always point at the entries of the store; packed entries unpack; batch updates revert.
  Theory Pool\_Config: the node's copy of that list (\<^verbatim>\<open>types/src/contract_payloads/angstrom/mod.rs\<close>) and
  the pool of an order (\<^verbatim>\<open>validation/src/order/state/pools/mod.rs\<close>). Theory Eth\_Manager: commits and reorgs of
  the chain and the events of the contracts (\<^verbatim>\<open>eth/src/manager.rs\<close>), which change the copy. Shown, over
  both sides together: the copy that is loaded mirrors the contract, a new pool keeps it so, removing a pool keeps it so
  only for the last two entries, the set of nodes is always followed.

  \<^bold>\<open>Bounds.\<close> No definition has fuel: every loop is structural or has a termination
  proof. Limits on sizes (256 bits for sums of amounts, 64 bits for priorities) are
  hypotheses of the theorems that need them, with a witness that meets them.

  \<^bold>\<open>Not modelled.\<close> Metrics, logging and the wiring of the binaries have no
  result to state. Network sessions, RPC servers, the connection to the chain and the simulation of
  transactions are the runtime, sockets and virtual machine of other packages. Of the contracts the
  settlement of a bundle, the pool hooks and the transfers of fees are left out: they move tokens through other
  contracts.
\<close>

end
